theory Spec2Isabelle
  imports Main
begin

section \<open>Job scheduling core of snakemake (snakemake/jobs.py)\<close>

text \<open>
  The module keeps a graph of \<open>Job\<close> objects that refer to one another, two schedulers and
  a handful of module-level services (the workflow's job counter, the logger, the file
  system). The embedding is a store: every \<open>Job\<close> object lives in \<open>heap\<close> under its
  \<open>jobid\<close> (the value of the class counter \<open>Job.count\<close> when it was constructed), and
  every method takes the state and returns the new one.

  A Python \<open>set\<close> of jobs is a duplicate-free list; the order of the list is the order
  in which a \<open>for\<close> loop visits the set.
\<close>

subsection \<open>Exceptions and outcomes\<close>

datatype exn =
    RuleException string
  | MissingOutputException
  | ClusterJobException
  | OSError
  | KeyError
  | ValueError
  | IndexError
  | AttributeError
  | RecursionError
  | OtherException string

text \<open>
  A call returns a value, raises, or never returns. \<open>Diverge\<close> is produced only by the
  one loop of the module whose number of iterations is not bounded by its input (the
  traversal of \<open>handle_dynamic_output\<close>); no handler catches it.
\<close>

datatype 'a outcome = Return 'a | Raise exn | Diverge

fun foreach :: "'a list \<Rightarrow> ('a \<Rightarrow> 's \<Rightarrow> unit outcome \<times> 's) \<Rightarrow> 's \<Rightarrow> unit outcome \<times> 's" where
  "foreach [] f s = (Return (), s)"
| "foreach (x # xs) f s =
     (case f x s of
        (Return u, s') \<Rightarrow> foreach xs f s'
      | (Raise e, s') \<Rightarrow> (Raise e, s')
      | (Diverge, s') \<Rightarrow> (Diverge, s'))"

subsection \<open>Python containers\<close>

definition set_add :: "'a \<Rightarrow> 'a list \<Rightarrow> 'a list" where
  "set_add x xs = (if x \<in> set xs then xs else xs @ [x])"

definition set_update :: "'a list \<Rightarrow> 'a list \<Rightarrow> 'a list" where
  "set_update xs ys = fold set_add ys xs"


text \<open>\<open>list.remove(x)\<close>: drops the first occurrence, \<open>ValueError\<close> when there is none.\<close>

definition list_remove :: "'a \<Rightarrow> 'a list \<Rightarrow> exn + 'a list" where
  "list_remove x xs = (if x \<in> set xs then Inr (remove1 x xs) else Inl ValueError)"

text \<open>Indexing a list with a Python integer: negative indices count from the end.\<close>

definition py_get :: "'a list \<Rightarrow> int \<Rightarrow> exn + 'a" where
  "py_get xs i =
     (let n = int (length xs); k = (if i < 0 then n + i else i)
      in if 0 \<le> k \<and> k < n then Inr (xs ! nat k) else Inl IndexError)"

subsection \<open>Decimal rendering of integers (\<open>str.format\<close> on an \<open>int\<close>)\<close>

definition digit_char :: "nat \<Rightarrow> char" where
  "digit_char d = char_of (48 + d)"

fun str_nat :: "nat \<Rightarrow> string" where
  "str_nat n = (if n < 10 then [digit_char n] else str_nat (n div 10) @ [digit_char (n mod 10)])"

declare str_nat.simps [simp del]

definition str_int :: "int \<Rightarrow> string" where
  "str_int i = (if i < 0 then CHR ''-'' # str_nat (nat (- i)) else str_nat (nat i))"

subsection \<open>Data model\<close>

type_synonym jobref = nat
type_synonym ruleref = nat

record iofile =
  path :: string
  is_temp :: bool
  is_protected :: bool

text \<open>
  Modelled from the spec: class \<open>Rule\<close> is not part of this module. The spec gives
  \<open>name\<close>, \<open>input\<close>, \<open>output\<close>, \<open>lineno\<close>, \<open>snakefile\<close>, \<open>is_dynamic(file)\<close> and
  \<open>set_dynamic(file, bool)\<close>; the dynamic flag is kept as the list of flagged paths.
\<close>

record rule =
  name :: string
  rinput :: "iofile list"
  routput :: "iofile list"
  dynamic :: "string list"
  lineno :: int
  snakefile :: string

definition is_dynamic :: "rule \<Rightarrow> iofile \<Rightarrow> bool" where
  "is_dynamic r f = (path f \<in> set (dynamic r))"

definition set_dynamic :: "iofile \<Rightarrow> bool \<Rightarrow> rule \<Rightarrow> rule" where
  "set_dynamic f b r =
     (if b then r\<lparr>dynamic := set_add (path f) (dynamic r)\<rparr>
      else r\<lparr>dynamic := removeAll (path f) (dynamic r)\<rparr>)"

datatype sched_ref = Knapsack | Cluster

text \<open>
  The callables that the module registers on a job are the bound methods
  \<open>KnapsackJobScheduler._finished\<close>, \<open>ClusterJobScheduler._finished\<close> and
  \<open>KnapsackJobScheduler._error\<close>.
\<close>

datatype callback = KnapsackFinished | ClusterFinished
datatype error_callback = KnapsackError

text \<open>
  The attributes of \<open>Job\<close>, in the order of \<open>Job.__init__\<close>. The attributes
  \<open>workflow\<close> (the one workflow of the process, kept in the state) and \<open>visited\<close>
  (stored, never read here) are left out; \<open>output\<close> is spelt \<open>outputs\<close>. \<open>depends\<close> is a Python set until the job is
  spliced out of the graph, \<open>depending\<close> is a Python list.
\<close>

record job =
  scheduler :: "sched_ref option"
  rule :: ruleref
  message :: "string option"
  reason :: "string option"
  input :: "iofile list"
  outputs :: "iofile list"
  wildcards :: "(string \<times> string) list"
  threads :: int
  log :: "iofile option"
  dryrun :: bool
  quiet :: bool
  touch :: bool
  shellcmd :: "string option"
  needrun :: bool
  pseudo :: bool
  forced :: bool
  dynamic_output :: bool
  depends :: "jobref list"
  depending :: "jobref list"
  is_finished :: bool
  callbacks :: "callback list"
  error_callbacks :: "error_callback list"
  jobid :: nat
  ignore :: bool

record knapsack_scheduler =
  maxcores :: int
  cores :: int
  pool :: "jobref list"
  kjobs :: "jobref list"
  kopen_jobs :: bool
  errors :: bool

record cluster_scheduler =
  cjobs :: "jobref list"
  submitcmd :: string
  copen_jobs :: bool
  cerror :: bool
  ccores :: "int option"
  watchers :: "(jobref \<times> string \<times> string \<times> string) list"

datatype logmsg = Info string | InfoJobcounter int int | Warning string | PrintException exn

text \<open>
  \<open>fired\<close> is a history variable: it records every invocation of a completion or error
  callback, in order. Nothing in the model reads it.
\<close>

datatype event = Fired callback jobref | FiredError error_callback jobref

text \<open>A future of the worker pool, once done: its exception, if any, and its result.\<close>

datatype future = Future "exn option" nat

fun future_exception :: "future \<Rightarrow> exn option" where
  "future_exception (Future ex r) = ex"

fun future_result :: "future \<Rightarrow> nat" where
  "future_result (Future ex r) = r"

record 'fs state =
  heap :: "jobref \<Rightarrow> job"
  job_count :: nat
  rules :: "ruleref \<Rightarrow> rule"
  fs :: 'fs
  jobcounter_count :: int
  jobcounter_done :: int
  runtimes :: "(ruleref \<times> nat) list"
  workflow_cores :: "int option"
  scriptpath :: "string option"
  logged :: "logmsg list"
  fired :: "event list"
  ksched :: knapsack_scheduler
  csched :: cluster_scheduler

text \<open>The dictionary \<open>jobs\<close> that \<open>handle_dynamic_output\<close> hands to the job factory.\<close>

type_synonym jobsdict = "((iofile list \<times> ruleref) \<times> jobref) list"

text \<open>The \<open>wildcard_expansion\<close> dictionary: wildcard name to the set of observed values.\<close>

type_synonym wildcard_expansion = "(string \<times> string list) list"

text \<open>
  The collaborators outside this module (\<open>snakemake.io\<close>, \<open>snakemake.utils\<close>,
  \<open>snakemake.shell\<close>, \<open>Rule.run\<close>) are parameters. A file operation returns the new
  file system and the exception it raised, if any. \<open>rule_run\<close> is the job factory
  \<open>Rule.run(target, jobs, forcethis)\<close>: it answers with the arguments of the \<open>Job\<close>
  constructor calls it makes, in order, and then either the job it returns or the
  exception it raises, together with the dictionary as it leaves it; the model runs
  \<open>Job.__init__\<close> on each. \<open>str_format t job\<close> is \<open>str.format\<close> on the user's template
  \<open>t\<close> with the job's \<open>input\<close>, \<open>output\<close>, \<open>wildcards\<close>, \<open>threads\<close>, \<open>log\<close> and the
  module's globals; \<open>str_iofiles\<close> is \<open>str\<close> of the list type that holds a job's files;
  \<open>rule_get_run\<close> is \<open>Rule.get_run()\<close>, of which only the exception it may raise matters
  here. \<open>recursion_limit\<close> is the interpreter's bound on nested generator frames.
\<close>

record 'fs ext =
  listfiles :: "'fs \<Rightarrow> string \<Rightarrow> (string \<times> (string \<times> string) list) list"
  io_remove :: "string \<Rightarrow> 'fs \<Rightarrow> exn option \<times> 'fs"
  io_touch :: "string \<Rightarrow> 'fs \<Rightarrow> exn option \<times> 'fs"
  iofile_remove :: "iofile \<Rightarrow> 'fs \<Rightarrow> exn option \<times> 'fs"
  iofile_touch :: "iofile \<Rightarrow> 'fs \<Rightarrow> exn option \<times> 'fs"
  iofile_prepare :: "iofile \<Rightarrow> 'fs \<Rightarrow> exn option \<times> 'fs"
  iofile_created :: "iofile \<Rightarrow> 'fs \<Rightarrow> exn option \<times> 'fs"
  iofile_used :: "iofile \<Rightarrow> 'fs \<Rightarrow> exn option \<times> 'fs"
  expand :: "iofile \<Rightarrow> wildcard_expansion \<Rightarrow> exn + string list"
  rule_run :: "'fs state \<Rightarrow> ruleref \<Rightarrow> iofile option \<Rightarrow> jobsdict \<Rightarrow> bool
                 \<Rightarrow> job list \<times> jobsdict \<times> (exn + jobref)"
  str_format :: "string \<Rightarrow> job \<Rightarrow> exn + string"
  str_iofiles :: "iofile list \<Rightarrow> string"
  rule_get_run :: "rule \<Rightarrow> exn option"
  shell :: "string list \<Rightarrow> 'fs \<Rightarrow> exn option \<times> 'fs"
  path_exists :: "'fs \<Rightarrow> string \<Rightarrow> bool"
  os_remove :: "string \<Rightarrow> 'fs \<Rightarrow> exn option \<times> 'fs"
  getcwd :: string
  cpu_count :: int
  recursion_limit :: nat

definition fs_op :: "('fs \<Rightarrow> exn option \<times> 'fs) \<Rightarrow> 'fs state \<Rightarrow> unit outcome \<times> 'fs state" where
  "fs_op opn s =
     (case opn (fs s) of
        (None, f') \<Rightarrow> (Return (), s\<lparr>fs := f'\<rparr>)
      | (Some e, f') \<Rightarrow> (Raise e, s\<lparr>fs := f'\<rparr>))"

definition update_job :: "jobref \<Rightarrow> (job \<Rightarrow> job) \<Rightarrow> 'fs state \<Rightarrow> 'fs state" where
  "update_job j g s = s\<lparr>heap := (heap s)(j := g (heap s j))\<rparr>"

definition logger :: "logmsg \<Rightarrow> 'fs state \<Rightarrow> 'fs state" where
  "logger m s = s\<lparr>logged := logged s @ [m]\<rparr>"

subsection \<open>\<open>Job.__init__\<close>\<close>

text \<open>
  The constructor's arguments are passed as a \<open>job\<close> record; the attributes the
  constructor computes itself are overwritten.
\<close>

definition job_init :: "job \<Rightarrow> 'fs state \<Rightarrow> jobref \<times> 'fs state" where
  "job_init args s =
     (let n = job_count s;
          new = args\<lparr>scheduler := None, depends := remdups (depends args), depending := [],
                     is_finished := False, callbacks := [], error_callbacks := [],
                     jobid := n, ignore := False\<rparr>;
          s1 = s\<lparr>heap := (heap s)(n := new), job_count := n + 1\<rparr>
      in (n, fold (\<lambda>other. update_job other (\<lambda>b. b\<lparr>depending := depending b @ [n]\<rparr>))
                  (depends new) s1))"

subsection \<open>\<open>Job.descendants\<close>, \<open>Job.all_jobs\<close>\<close>

text \<open>
  The generators recurse along \<open>depends\<close>; the first argument bounds the nesting, and
  \<open>None\<close> is the interpreter's \<open>RecursionError\<close>.
\<close>

fun descendants :: "nat \<Rightarrow> (jobref \<Rightarrow> job) \<Rightarrow> jobref \<Rightarrow> jobref list option" where
  "descendants 0 h j = None"
| "descendants (Suc d) h j =
     map_option concat
       (those (map (\<lambda>k. map_option (Cons k) (descendants d h k)) (depends (h j))))"

definition all_jobs :: "nat \<Rightarrow> (jobref \<Rightarrow> job) \<Rightarrow> jobref \<Rightarrow> jobref list option" where
  "all_jobs d h j = map_option (Cons j) (descendants d h j)"

subsection \<open>\<open>Job.add_callback\<close>, \<open>Job.add_error_callback\<close>\<close>



subsection \<open>\<open>Job.cleanup\<close>\<close>

definition job_rule :: "'fs state \<Rightarrow> jobref \<Rightarrow> rule" where
  "job_rule s j = rules s (rule (heap s j))"

definition cleanup :: "'fs ext \<Rightarrow> jobref \<Rightarrow> 'fs state \<Rightarrow> unit outcome \<times> 'fs state" where
  "cleanup ext j s =
     (if \<not> is_finished (heap s j) then
        foreach (outputs (heap s j))
          (\<lambda>out s1. if is_dynamic (job_rule s1 j) out
                     then foreach (listfiles ext (fs s1) (path out))
                            (\<lambda>(f, w). fs_op (io_remove ext f)) s1
                     else fs_op (iofile_remove ext out) s1) s
      else (Return (), s))"

subsection \<open>Scheduler callbacks and \<open>add_jobs\<close>\<close>

text \<open>\<open>KnapsackJobScheduler._finished\<close>\<close>

definition knapsack_finished :: "jobref \<Rightarrow> 'fs state \<Rightarrow> 'fs state" where
  "knapsack_finished j s =
     (let k = ksched s;
          k1 = (if needrun (heap s j) then k\<lparr>cores := cores k + threads (heap s j)\<rparr> else k)
      in s\<lparr>ksched := k1\<lparr>kopen_jobs := True\<rparr>\<rparr>)"

text \<open>\<open>KnapsackJobScheduler._error\<close>\<close>

definition knapsack_error :: "'fs state \<Rightarrow> 'fs state" where
  "knapsack_error s = s\<lparr>ksched := (ksched s)\<lparr>errors := True, kjobs := [], kopen_jobs := True\<rparr>\<rparr>"

text \<open>\<open>ClusterJobScheduler._finished\<close>\<close>

definition cluster_finished :: "jobref \<Rightarrow> 'fs state \<Rightarrow> 'fs state" where
  "cluster_finished j s = s\<lparr>csched := (csched s)\<lparr>copen_jobs := True\<rparr>\<rparr>"

definition call_callback :: "jobref \<Rightarrow> callback \<Rightarrow> 'fs state \<Rightarrow> unit outcome \<times> 'fs state" where
  "call_callback j cb s =
     (let s1 = s\<lparr>fired := fired s @ [Fired cb j]\<rparr>
      in (Return (), case cb of KnapsackFinished \<Rightarrow> knapsack_finished j s1
                              | ClusterFinished \<Rightarrow> cluster_finished j s1))"

definition call_error_callback :: "jobref \<Rightarrow> error_callback \<Rightarrow> 'fs state \<Rightarrow> unit outcome \<times> 'fs state" where
  "call_error_callback j cb s =
     (let s1 = s\<lparr>fired := fired s @ [FiredError cb j]\<rparr>
      in (Return (), case cb of KnapsackError \<Rightarrow> knapsack_error s1))"

text \<open>\<open>add_jobs\<close> of either scheduler.\<close>

definition add_job :: "sched_ref \<Rightarrow> jobref \<Rightarrow> 'fs state \<Rightarrow> 'fs state" where
  "add_job sch j s =
     (let s1 = update_job j (\<lambda>a. a\<lparr>scheduler := Some sch\<rparr>) s
      in case sch of
           Knapsack \<Rightarrow> s1\<lparr>ksched := (ksched s1)\<lparr>kjobs := set_add j (kjobs (ksched s1))\<rparr>\<rparr>
         | Cluster \<Rightarrow> s1\<lparr>csched := (csched s1)\<lparr>cjobs := set_add j (cjobs (csched s1))\<rparr>\<rparr>)"

definition add_jobs :: "sched_ref \<Rightarrow> jobref list \<Rightarrow> 'fs state \<Rightarrow> 'fs state" where
  "add_jobs sch js s = fold (add_job sch) js s"

subsection \<open>\<open>Job.handle_dynamic_input\<close>\<close>

text \<open>
  The first loop: \<open>expansion[i]\<close> receives the expanded files of the dynamic input
  \<open>i\<close>, in reversed order; a key appears only when the expansion is not empty.
  \<open>None\<close> is the early \<open>return\<close> of the handler of a failed expansion.
\<close>

definition iofile_create :: "iofile \<Rightarrow> string \<Rightarrow> iofile" where
  "iofile_create f e = \<lparr>path = e, is_temp = is_temp f, is_protected = is_protected f\<rparr>"

fun expand_inputs :: "'fs ext \<Rightarrow> rule \<Rightarrow> wildcard_expansion \<Rightarrow> nat \<Rightarrow> iofile list
      \<Rightarrow> (nat \<times> iofile list) list \<Rightarrow> (nat \<times> iofile list) list option" where
  "expand_inputs ext r w i [] acc = Some acc"
| "expand_inputs ext r w i (f # rest) acc =
     (if is_dynamic r f then
        (case expand ext f w of
           Inl e \<Rightarrow> None
         | Inr es \<Rightarrow>
             expand_inputs ext r w (i + 1) rest
               (if es = [] then acc else acc @ [(i, map (iofile_create f) (rev es))]))
      else expand_inputs ext r w (i + 1) rest acc)"

text \<open>One round of the second loop: clear the flag of input \<open>i\<close>, then \<open>input[i:i+1] = e\<close>.\<close>

definition replace_input :: "nat \<times> iofile list \<Rightarrow> rule \<Rightarrow> rule" where
  "replace_input ie r =
     (let i = fst ie; r1 = set_dynamic (rinput r ! i) False r
      in r1\<lparr>rinput := take i (rinput r1) @ snd ie @ drop (i + 1) (rinput r1)\<rparr>)"

text \<open>\<open>j.depending.remove(self)\<close> on the list \<open>depending\<close>.\<close>

definition remove_depending :: "jobref \<Rightarrow> jobref \<Rightarrow> 'fs state \<Rightarrow> unit outcome \<times> 'fs state" where
  "remove_depending self j s =
     (case list_remove self (depending (heap s j)) of
        Inl e \<Rightarrow> (Raise e, s)
      | Inr l \<Rightarrow> (Return (), update_job j (\<lambda>b. b\<lparr>depending := l\<rparr>) s))"

text \<open>
  \<open>j.depends.remove(self)\<close>. \<open>depends\<close> is a set, whose \<open>remove\<close> raises
  \<open>KeyError\<close>, unless \<open>j\<close> was spliced out (\<open>ignore\<close>): then it is the empty list, whose
  \<open>remove\<close> raises \<open>ValueError\<close>.
\<close>

definition remove_depends :: "jobref \<Rightarrow> jobref \<Rightarrow> 'fs state \<Rightarrow> unit outcome \<times> 'fs state" where
  "remove_depends self j s =
     (if self \<in> set (depends (heap s j))
      then (Return (), update_job j (\<lambda>b. b\<lparr>depends := removeAll self (depends b)\<rparr>) s)
      else (Raise (if ignore (heap s j) then ValueError else KeyError), s))"

definition create_jobs :: "job list \<Rightarrow> 'fs state \<Rightarrow> 'fs state" where
  "create_jobs specs s = fold (\<lambda>args t. snd (job_init args t)) specs s"

definition splice :: "jobref \<Rightarrow> 'fs state \<Rightarrow> unit outcome \<times> 'fs state" where
  "splice self s =
     (case foreach (depends (heap s self)) (remove_depending self) s of
        (Return u, s1) \<Rightarrow>
          (case foreach (depending (heap s1 self)) (remove_depends self) s1 of
             (Return u, s2) \<Rightarrow>
               (Return (), update_job self (\<lambda>a. a\<lparr>depends := [], ignore := True\<rparr>) s2)
           | r \<Rightarrow> r)
      | r \<Rightarrow> r)"

text \<open>
  The result is the replacement job, or \<open>None\<close>; every exception of the second half is
  swallowed by its handler, with the state as the exception left it.
\<close>

definition handle_dynamic_input :: "'fs ext \<Rightarrow> wildcard_expansion \<Rightarrow> jobsdict \<Rightarrow> jobref \<Rightarrow> 'fs state
      \<Rightarrow> (jobref option \<times> jobsdict) \<times> 'fs state" where
  "handle_dynamic_input ext w jobs self s =
     (let rr = rule (heap s self); r = rules s rr
      in case expand_inputs ext r w 0 (rinput r) [] of
           None \<Rightarrow> ((None, jobs), s)
         | Some expansion \<Rightarrow>
             if expansion = [] then ((None, jobs), s)
             else
               let s1 = s\<lparr>rules := (rules s)(rr := fold replace_input (rev expansion) r)\<rparr>;
                   target = (case outputs (heap s1 self) of [] \<Rightarrow> None | out # rest \<Rightarrow> Some out);
                   (specs, jobs1, res) = rule_run ext s1 rr target jobs (forced (heap s1 self));
                   s2 = create_jobs specs s1
               in case res of
                    Inl e \<Rightarrow> ((None, jobs1), s2)
                  | Inr job \<Rightarrow>
                      (case splice self s2 of
                         (Return u, s3) \<Rightarrow> ((Some job, jobs1), s3)
                       | (r, s3) \<Rightarrow> ((None, jobs1), s3)))"

subsection \<open>\<open>Job.handle_dynamic_output\<close>\<close>

definition add_value :: "string \<Rightarrow> string \<Rightarrow> wildcard_expansion \<Rightarrow> wildcard_expansion" where
  "add_value nm v w =
     (if nm \<in> fst ` set w
      then map (\<lambda>(n, vs). if n = nm then (n, set_add v vs) else (n, vs)) w
      else w @ [(nm, [v])])"

definition add_wildcards :: "(string \<times> string) list \<Rightarrow> wildcard_expansion \<Rightarrow> wildcard_expansion" where
  "add_wildcards ws w = fold (\<lambda>(nm, v). add_value nm v) ws w"

fun collect_wildcards :: "'fs ext \<Rightarrow> 'fs \<Rightarrow> rule \<Rightarrow> nat \<Rightarrow> iofile list \<Rightarrow> wildcard_expansion
      \<Rightarrow> exn + wildcard_expansion" where
  "collect_wildcards ext f r i [] w = Inr w"
| "collect_wildcards ext f r i (out # rest) w =
     (if is_dynamic r out then
        (case py_get (routput r) (int i) of
           Inl e \<Rightarrow> Inl e
         | Inr pat \<Rightarrow>
             collect_wildcards ext f r (i + 1) rest
               (fold (\<lambda>(p, ws). add_wildcards ws) (listfiles ext f (path pat)) w))
      else collect_wildcards ext f r (i + 1) rest w)"

text \<open>
  The loop \<open>for job in self.ancestors()\<close>. \<open>ancestors\<close> is a generator: each round pops
  the next job, queues the unvisited members of its \<open>depending\<close> as that list is at
  that moment, and only then runs the loop body on the job. The body creates jobs and
  rewires edges, so the traversal is not bounded by the graph it started on; the first
  argument is fuel.
\<close>

definition enqueue :: "jobref list \<Rightarrow> jobref list \<times> jobref list \<Rightarrow> jobref list \<times> jobref list" where
  "enqueue js qv =
     fold (\<lambda>j (q, v). if j \<in> set v then (q, v) else (q @ [j], set_add j v)) js qv"

fun ancestors_loop :: "nat \<Rightarrow> 'fs ext \<Rightarrow> wildcard_expansion \<Rightarrow> jobsdict \<Rightarrow> jobref list \<Rightarrow> jobref list
      \<Rightarrow> jobref list \<Rightarrow> int \<Rightarrow> 'fs state \<Rightarrow> (jobref list \<times> int) outcome \<times> 'fs state" where
  "ancestors_loop n ext w jobs [] visited new_jobs dyn s = (Return (new_jobs, dyn), s)"
| "ancestors_loop 0 ext w jobs (job # queue) visited new_jobs dyn s = (Diverge, s)"
| "ancestors_loop (Suc n) ext w jobs (job # queue) visited new_jobs dyn s =
     (let (queue1, visited1) = enqueue (depending (heap s job)) (queue, visited)
      in case handle_dynamic_input ext w jobs job s of
           ((None, jobs1), s1) \<Rightarrow> ancestors_loop n ext w jobs1 queue1 visited1 new_jobs dyn s1
         | ((Some j, jobs1), s1) \<Rightarrow>
             (case all_jobs (recursion_limit ext) (heap s1) j of
                None \<Rightarrow> (Raise RecursionError, s1)
              | Some js \<Rightarrow>
                  ancestors_loop n ext w jobs1 queue1 visited1 (set_update new_jobs js) (dyn + 1) s1))"

text \<open>The handler \<open>try: job.depends.remove(self) except: pass\<close>.\<close>

definition discard_depends :: "jobref \<Rightarrow> jobref \<Rightarrow> 'fs state \<Rightarrow> unit outcome \<times> 'fs state" where
  "discard_depends self j s = (Return (), snd (remove_depends self j s))"

definition handle_dynamic_output :: "nat \<Rightarrow> 'fs ext \<Rightarrow> jobref \<Rightarrow> 'fs state \<Rightarrow> unit outcome \<times> 'fs state" where
  "handle_dynamic_output fuel ext self s =
     (case collect_wildcards ext (fs s) (job_rule s self) 0 (outputs (heap s self)) [] of
        Inl e \<Rightarrow> (Raise e, s)
      | Inr w \<Rightarrow>
          let jobs = [((outputs (heap s self), rule (heap s self)), self)];
              queue = depending (heap s self)
          in case ancestors_loop fuel ext w jobs queue (remdups queue) [] 0 s of
               (Raise e, s1) \<Rightarrow> (Raise e, s1)
             | (Diverge, s1) \<Rightarrow> (Diverge, s1)
             | (Return (new_jobs, dyn), s1) \<Rightarrow>
                 let (new_jobs1, s2) =
                       (if self \<in> set new_jobs
                        then (removeAll self new_jobs,
                              snd (foreach (depending (heap s1 self)) (discard_depends self) s1))
                        else (new_jobs, s1));
                     n = int (length new_jobs1) - dyn;
                     s3 = (if n \<noteq> 0
                           then logger (Warning (''Dynamically adding '' @ str_int n @ '' new jobs'')) s2
                           else s2)
                 in case scheduler (heap s3 self) of
                      None \<Rightarrow> (Raise AttributeError, s3)
                    | Some sch \<Rightarrow>
                        let s4 = add_jobs sch new_jobs1 s3
                        in (Return (), s4\<lparr>jobcounter_count := jobcounter_count s4 + n\<rparr>))"

subsection \<open>\<open>Job.finished\<close>\<close>

text \<open>The body of the \<open>try\<close> statement.\<close>

definition check_produced :: "'fs ext \<Rightarrow> future option \<Rightarrow> jobref \<Rightarrow> 'fs state \<Rightarrow> unit outcome \<times> 'fs state" where
  "check_produced ext fut j s =
     (case (case fut of None \<Rightarrow> None | Some f \<Rightarrow> future_exception f) of
        Some ex \<Rightarrow> (Raise ex, s)
      | None \<Rightarrow>
          if \<not> dryrun (heap s j) then
            (case foreach (outputs (heap s j))
                    (\<lambda>out s1. if \<not> is_dynamic (job_rule s1 j) out
                               then fs_op (iofile_created ext out) s1 else (Return (), s1)) s of
               (Return u, s1) \<Rightarrow> foreach (input (heap s1 j)) (\<lambda>f. fs_op (iofile_used ext f)) s1
             | r \<Rightarrow> r)
          else (Return (), s))"

text \<open>The \<open>except\<close> clause: report, \<open>cleanup\<close>, error callbacks, \<open>return\<close>.\<close>

definition on_error :: "'fs ext \<Rightarrow> exn \<Rightarrow> jobref \<Rightarrow> 'fs state \<Rightarrow> unit outcome \<times> 'fs state" where
  "on_error ext ex j s =
     (case cleanup ext j (logger (PrintException ex) s) of
        (Return u, s1) \<Rightarrow> foreach (error_callbacks (heap s1 j)) (call_error_callback j) s1
      | r \<Rightarrow> r)"

text \<open>Modelled from the spec: \<open>jobcounter.done()\<close> and \<open>report_runtime\<close> of the workflow.\<close>

definition count_done :: "future option \<Rightarrow> jobref \<Rightarrow> 'fs state \<Rightarrow> 'fs state" where
  "count_done fut j s =
     (if \<not> dryrun (heap s j) then
        let s1 = s\<lparr>jobcounter_done := jobcounter_done s + 1\<rparr>;
            s2 = (if \<not> quiet (heap s1 j)
                  then logger (InfoJobcounter (jobcounter_done s1) (jobcounter_count s1)) s1 else s1)
        in (case fut of
              None \<Rightarrow> s2
            | Some f \<Rightarrow> s2\<lparr>runtimes := runtimes s2 @ [(rule (heap s2 j), future_result f)]\<rparr>)
      else s)"

definition fire_callbacks :: "jobref \<Rightarrow> 'fs state \<Rightarrow> unit outcome \<times> 'fs state" where
  "fire_callbacks j s = foreach (callbacks (heap s j)) (call_callback j) s"

text \<open>Detach from the dependents, expand dynamic output, fire the callbacks.\<close>

definition detach :: "nat \<Rightarrow> 'fs ext \<Rightarrow> jobref \<Rightarrow> 'fs state \<Rightarrow> unit outcome \<times> 'fs state" where
  "detach fuel ext j s =
     (case foreach (depending (heap s j)) (remove_depends j) s of
        (Return u, s1) \<Rightarrow>
          if \<not> dryrun (heap s1 j) \<and> dynamic_output (heap s1 j) then
            (case handle_dynamic_output fuel ext j s1 of
               (Return u, s2) \<Rightarrow> fire_callbacks j s2
             | r \<Rightarrow> r)
          else fire_callbacks j s1
      | r \<Rightarrow> r)"

definition finished :: "nat \<Rightarrow> 'fs ext \<Rightarrow> future option \<Rightarrow> jobref \<Rightarrow> 'fs state \<Rightarrow> unit outcome \<times> 'fs state" where
  "finished fuel ext fut j s0 =
     (let s = update_job j (\<lambda>a. a\<lparr>is_finished := True\<rparr>) s0
      in if \<not> ignore (heap s j) then
           if needrun (heap s j) \<and> \<not> pseudo (heap s j) then
             (case check_produced ext fut j s of
                (Raise ex, s1) \<Rightarrow> on_error ext ex j s1
              | (Diverge, s1) \<Rightarrow> (Diverge, s1)
              | (Return u, s1) \<Rightarrow> detach fuel ext j (count_done fut j s1))
           else detach fuel ext j s
         else fire_callbacks j s)"

subsection \<open>\<open>Job.get_message\<close>, \<open>Job.print_message\<close>\<close>

definition str_join :: "string \<Rightarrow> string list \<Rightarrow> string" where
  "str_join sep xs = (case xs of [] \<Rightarrow> [] | x # rest \<Rightarrow> x @ concat (map (\<lambda>y. sep @ y) rest))"

definition truthy :: "string option \<Rightarrow> bool" where
  "truthy x = (case x of None \<Rightarrow> False | Some v \<Rightarrow> v \<noteq> [])"

text \<open>The generator \<open>showtype\<close>, joined by its caller; the index is that of \<open>enumerate\<close>.\<close>

fun showtype :: "rule \<Rightarrow> iofile list \<Rightarrow> nat \<Rightarrow> iofile list \<Rightarrow> exn + string list" where
  "showtype r orig_iofiles i [] = Inr []"
| "showtype r orig_iofiles i (iofile # rest) =
     (case (if is_dynamic r iofile
            then (case py_get orig_iofiles (int i) of
                    Inl e \<Rightarrow> Inl e
                  | Inr f \<Rightarrow> Inr (path f @ '' (dynamic)''))
            else Inr (path iofile)) of
        Inl e \<Rightarrow> Inl e
      | Inr f \<Rightarrow>
          (let f1 = (if is_temp iofile then f @ '' (temporary)'' else f);
               f2 = (if is_protected iofile then f1 @ '' (protected)'' else f1)
           in case showtype r orig_iofiles (Suc i) rest of
                Inl e \<Rightarrow> Inl e
              | Inr fl \<Rightarrow> Inr (f2 # fl)))"

definition show_files :: "string \<Rightarrow> rule \<Rightarrow> iofile list \<Rightarrow> iofile list \<Rightarrow> exn + string" where
  "show_files label r orig_iofiles iofiles =
     (if iofiles \<noteq> []
      then (case showtype r orig_iofiles 0 iofiles of
              Inl e \<Rightarrow> Inl e
            | Inr fl \<Rightarrow> Inr ([CHR 0x0A, CHR 0x09] @ label @ str_join '', '' fl))
      else Inr [])"

definition get_message :: "'fs ext \<Rightarrow> 'fs state \<Rightarrow> jobref \<Rightarrow> exn + string" where
  "get_message ext s j =
     (let a = heap s j; r = job_rule s j
      in case (if \<not> quiet a then
                 if truthy (message a) then str_format ext (the (message a)) a
                 else (case show_files ''input: '' r (rinput r) (input a) of
                         Inl e \<Rightarrow> Inl e
                       | Inr m_in \<Rightarrow>
                           (case show_files ''output: '' r (routput r) (outputs a) of
                              Inl e \<Rightarrow> Inl e
                            | Inr m_out \<Rightarrow>
                                Inr (''rule '' @ name r
                                     @ (if input a \<noteq> [] \<or> outputs a \<noteq> [] then '':'' else [])
                                     @ m_in @ m_out
                                     @ (if truthy (reason a)
                                        then [CHR 0x0A, CHR 0x09] @ the (reason a) else []))))
               else Inr []) of
           Inl e \<Rightarrow> Inl e
         | Inr msg \<Rightarrow>
             if truthy (shellcmd a) then
               (case str_format ext (the (shellcmd a)) a of
                  Inl e \<Rightarrow> Inl e
                | Inr c \<Rightarrow> Inr (msg @ (if \<not> quiet a then [CHR 0x0A] else []) @ c))
             else Inr msg)"

definition print_message :: "'fs ext \<Rightarrow> jobref \<Rightarrow> 'fs state \<Rightarrow> unit outcome \<times> 'fs state" where
  "print_message ext j s =
     (case get_message ext s j of
        Inl e \<Rightarrow> (Raise e, s)
      | Inr m \<Rightarrow> (Return (), logger (Info m) s))"

subsection \<open>\<open>Job.run\<close>\<close>



text \<open>\<open>ClusterJobScheduler._run_job\<close>\<close>

definition str_replace :: "char \<Rightarrow> char \<Rightarrow> string \<Rightarrow> string" where
  "str_replace a b xs = map (\<lambda>c. if c = a then b else c) xs"

definition cluster_prefix :: "'fs state \<Rightarrow> jobref \<Rightarrow> string" where
  "cluster_prefix s j = ''.snakemake.'' @ name (job_rule s j) @ ''.''"

definition cluster_jobid :: "'fs state \<Rightarrow> jobref \<Rightarrow> string" where
  "cluster_jobid s j = str_replace CHR ''/'' CHR ''_'' (str_join ''_'' (map path (outputs (heap s j))))"

definition jobscript :: "'fs state \<Rightarrow> jobref \<Rightarrow> string" where
  "jobscript s j = cluster_prefix s j @ ''.'' @ cluster_jobid s j @ ''.sh''"

definition jobfinished :: "'fs state \<Rightarrow> jobref \<Rightarrow> string" where
  "jobfinished s j = cluster_prefix s j @ ''.'' @ cluster_jobid s j @ ''.jobfinished''"

definition jobfailed :: "'fs state \<Rightarrow> jobref \<Rightarrow> string" where
  "jobfailed s j = cluster_prefix s j @ ''.'' @ cluster_jobid s j @ ''.jobfailed''"

definition cluster_script :: "'fs ext \<Rightarrow> 'fs state \<Rightarrow> jobref \<Rightarrow> string list" where
  "cluster_script ext s j =
     (let js = jobscript s j;
          to_script = '' >> '' @ [CHR 0x22] @ js @ [CHR 0x22];
          sp = (case scriptpath s of None \<Rightarrow> ''snakemake'' | Some p \<Rightarrow> if p = [] then ''snakemake'' else p);
          cs = (case ccores (csched s) of None \<Rightarrow> ''None'' | Some c \<Rightarrow> str_int c)
      in [''echo '' @ [CHR 0x27] @ ''#!/bin/sh'' @ [CHR 0x27] @ '' > '' @ [CHR 0x22] @ js @ [CHR 0x22],
          ''echo '' @ [CHR 0x27] @ ''#rule: '' @ name (job_rule s j) @ [CHR 0x27] @ to_script,
          ''echo '' @ [CHR 0x27] @ ''#input: '' @ str_iofiles ext (input (heap s j)) @ [CHR 0x27] @ to_script,
          ''echo '' @ [CHR 0x27] @ ''#output: '' @ str_iofiles ext (outputs (heap s j)) @ [CHR 0x27] @ to_script,
          ''echo '' @ [CHR 0x27] @ sp @ '' --force -j'' @ cs @ '' --directory '' @ getcwd ext
             @ '' --nocolor --quiet '' @ str_iofiles ext (outputs (heap s j))
             @ '' && touch '' @ [CHR 0x22] @ jobfinished s j @ [CHR 0x22]
             @ '' || touch '' @ [CHR 0x22] @ jobfailed s j @ [CHR 0x22] @ [CHR 0x27] @ to_script,
          ''chmod +x '' @ [CHR 0x22] @ js @ [CHR 0x22],
          submitcmd (csched s) @ '' '' @ [CHR 0x22] @ js @ [CHR 0x22]])"

definition cluster_run_job :: "'fs ext \<Rightarrow> jobref \<Rightarrow> 'fs state \<Rightarrow> unit outcome \<times> 'fs state" where
  "cluster_run_job ext j s =
     (case print_message ext j s of
        (Return u, s1) \<Rightarrow>
          (case fs_op (shell ext (cluster_script ext s1 j)) s1 of
             (Return u, s2) \<Rightarrow>
               (Return (), s2\<lparr>csched := (csched s2)
                   \<lparr>watchers := watchers (csched s2) @ [(j, jobfinished s2 j, jobfailed s2 j, jobscript s2 j)]\<rparr>\<rparr>)
           | r \<Rightarrow> r)
      | r \<Rightarrow> r)"






subsection \<open>\<open>KnapsackJobScheduler\<close>\<close>

text \<open>\<open>__init__\<close>, on a state whose scheduler record is still blank.\<close>

definition knapsack_scheduler_init :: "'fs ext \<Rightarrow> jobref list \<Rightarrow> 'fs state \<Rightarrow> 'fs state" where
  "knapsack_scheduler_init ext js s =
     (let m = (case workflow_cores s of None \<Rightarrow> cpu_count ext
               | Some c \<Rightarrow> if c \<noteq> 0 then c else cpu_count ext);
          s1 = s\<lparr>ksched := \<lparr>maxcores = m, cores = m, pool = [], kjobs = [],
                              kopen_jobs = False, errors = False\<rparr>\<rparr>;
          s2 = add_jobs Knapsack js s1
      in s2\<lparr>ksched := (ksched s2)\<lparr>kopen_jobs := True, errors := False\<rparr>\<rparr>)"

text \<open>\<open>_knapsack\<close>: the table \<open>K\<close>, filled row by row, then the walk back from \<open>K[n][cores]\<close>.\<close>

definition fill_cell :: "(jobref \<Rightarrow> job) \<Rightarrow> jobref list \<Rightarrow> nat \<Rightarrow> nat \<Rightarrow> int list list
      \<Rightarrow> unit outcome \<times> int list list" where
  "fill_cell h jobs i j K =
     (let t = threads (h (jobs ! (i - 1)))
      in if t > int j then (Return (), K[i := (K ! i)[j := K ! (i - 1) ! j]])
         else (case py_get (K ! (i - 1)) (int j - t) of
                 Inl e \<Rightarrow> (Raise e, K)
               | Inr v \<Rightarrow> (Return (), K[i := (K ! i)[j := max (K ! (i - 1) ! j) (t + v)]])))"

definition knapsack_table :: "int \<Rightarrow> (jobref \<Rightarrow> job) \<Rightarrow> jobref list \<Rightarrow> unit outcome \<times> int list list" where
  "knapsack_table c h jobs =
     (let dimi = length jobs + 1; dimj = nat (c + 1)
      in foreach [1..<dimi] (\<lambda>i. foreach [1..<dimj] (\<lambda>j. fill_cell h jobs i j))
           (replicate dimi (replicate dimj 0)))"

fun reconstruct :: "(jobref \<Rightarrow> job) \<Rightarrow> jobref list \<Rightarrow> int list list \<Rightarrow> nat \<Rightarrow> int \<Rightarrow> jobref list
      \<Rightarrow> jobref list outcome" where
  "reconstruct h jobs K 0 j solution = Return solution"
| "reconstruct h jobs K (Suc i) j solution =
     (case py_get (K ! Suc i) j of
        Inl e \<Rightarrow> Raise e
      | Inr a \<Rightarrow>
          (case py_get (K ! i) j of
             Inl e \<Rightarrow> Raise e
           | Inr b \<Rightarrow>
               if a \<noteq> b
               then reconstruct h jobs K i (j - threads (h (jobs ! i))) (set_add (jobs ! i) solution)
               else reconstruct h jobs K i j solution))"

definition knapsack :: "int \<Rightarrow> (jobref \<Rightarrow> job) \<Rightarrow> jobref list \<Rightarrow> jobref list outcome" where
  "knapsack c h jobs =
     (case knapsack_table c h jobs of
        (Return u, K) \<Rightarrow> reconstruct h jobs K (length jobs) c []
      | (Raise e, K) \<Rightarrow> Raise e
      | (Diverge, K) \<Rightarrow> Diverge)"







subsection \<open>\<open>ClusterJobScheduler\<close>\<close>

definition cluster_scheduler_init :: "string \<Rightarrow> jobref list \<Rightarrow> 'fs state \<Rightarrow> 'fs state" where
  "cluster_scheduler_init cmd js s =
     (let s1 = add_jobs Cluster js
                 (s\<lparr>csched := \<lparr>cjobs = [], submitcmd = cmd, copen_jobs = False, cerror = False,
                                ccores = None, watchers = []\<rparr>\<rparr>)
      in s1\<lparr>csched := (csched s1)\<lparr>submitcmd := cmd, copen_jobs := True, cerror := False,
                                   ccores := workflow_cores s1\<rparr>\<rparr>)"







subsection \<open>Example data\<close>

text \<open>
  The defaults of the \<open>Job\<close> constructor, a rule, a state without jobs, and collaborators
  over a file system that is the list of the paths that exist.
\<close>

definition default_job :: job where
  "default_job = \<lparr>scheduler = None, rule = 0, message = None, reason = None, input = [], outputs = [],
     wildcards = [], threads = 1, log = None, dryrun = False, quiet = False, touch = False,
     shellcmd = None, needrun = True, pseudo = False, forced = False, dynamic_output = False,
     depends = [], depending = [], is_finished = False, callbacks = [], error_callbacks = [],
     jobid = 0, ignore = False\<rparr>"

definition example_rule :: rule where
  "example_rule = \<lparr>name = ''r'', rinput = [], routput = [], dynamic = [], lineno = 1,
     snakefile = ''Snakefile''\<rparr>"

definition empty_state :: "string list state" where
  "empty_state = \<lparr>heap = (\<lambda>k. default_job), job_count = 0, rules = (\<lambda>k. example_rule), fs = [],
     jobcounter_count = 0, jobcounter_done = 0, runtimes = [], workflow_cores = None,
     scriptpath = None, logged = [], fired = [],
     ksched = \<lparr>maxcores = 4, cores = 4, pool = [], kjobs = [], kopen_jobs = True, errors = False\<rparr>,
     csched = \<lparr>cjobs = [], submitcmd = ''qsub'', copen_jobs = True, cerror = False, ccores = None,
                watchers = []\<rparr>\<rparr>"

definition plain_ext :: "string list ext" where
  "plain_ext = \<lparr>listfiles = (\<lambda>f p. []),
     io_remove = (\<lambda>p f. (None, removeAll p f)),
     io_touch = (\<lambda>p f. (None, f)),
     iofile_remove = (\<lambda>p f. (None, removeAll (path p) f)),
     iofile_touch = (\<lambda>p f. (None, f)),
     iofile_prepare = (\<lambda>p f. (None, f)),
     iofile_created = (\<lambda>p f. (if path p \<in> set f then None else Some MissingOutputException, f)),
     iofile_used = (\<lambda>p f. (None, f)),
     expand = (\<lambda>f w. Inr []),
     rule_run = (\<lambda>s r t jobs forced. ([], jobs, Inl (OtherException ''no rule''))),
     str_format = (\<lambda>t a. Inr t),
     str_iofiles = (\<lambda>fl. str_join '' '' (map path fl)),
     rule_get_run = (\<lambda>r. None),
     shell = (\<lambda>cmds f. (None, f)),
     path_exists = (\<lambda>f p. p \<in> set f),
     os_remove = (\<lambda>p f. (None, removeAll p f)),
     getcwd = ''/work'',
     cpu_count = 4,
     recursion_limit = 1000\<rparr>"

text \<open>The same collaborators, with a shell that appends the commands it is given to the file system.\<close>

definition script_ext :: "string list ext" where
  "script_ext = plain_ext\<lparr>shell := (\<lambda>cmds f. (None, f @ cmds))\<rparr>"

text \<open>One job of rule \<open>r\<close> with the output \<open>a/out.txt\<close>, which exists, registered with the local scheduler.\<close>

definition one_job_state :: "string list state" where
  "one_job_state =
     empty_state\<lparr>heap := (heap empty_state)
         (0 := default_job\<lparr>outputs := [\<lparr>path = ''a/out.txt'', is_temp = False, is_protected = False\<rparr>],
                           error_callbacks := [KnapsackError], callbacks := [KnapsackFinished]\<rparr>),
       job_count := 1, fs := [''a/out.txt'']\<rparr>"

definition finished_job_state :: "string list state" where
  "finished_job_state = update_job 0 (\<lambda>a. a\<lparr>is_finished := True\<rparr>) one_job_state"

definition norun_job_state :: "string list state" where
  "norun_job_state = update_job 0 (\<lambda>a. a\<lparr>needrun := False\<rparr>) one_job_state"

text \<open>A rule whose only input is dynamic, and a wildcard expansion that fails.\<close>

definition failing_expand_ext :: "string list ext" where
  "failing_expand_ext = plain_ext\<lparr>expand := (\<lambda>f w. Inl KeyError)\<rparr>"

definition dynamic_input_state :: "string list state" where
  "dynamic_input_state =
     one_job_state\<lparr>rules := (\<lambda>k. example_rule
        \<lparr>rinput := [\<lparr>path = ''in/{sample}.txt'', is_temp = False, is_protected = False\<rparr>],
         dynamic := [''in/{sample}.txt'']\<rparr>)\<rparr>"

subsection \<open>Relations between states\<close>

text \<open>
  \<open>same_core a b\<close>: the job \<open>b\<close> is the job \<open>a\<close> up to its edges and its \<open>ignore\<close> flag.
  \<open>fresh\<close>: a job as the constructor leaves it. \<open>grows s s'\<close>: from \<open>s\<close> to \<open>s'\<close> jobs were
  constructed and edges of existing jobs were rewired, \<open>depends\<close> only shrinking; nothing
  else changed but the rules. \<open>attached\<close>: the job is in the pending set of the scheduler it
  points to.
\<close>

definition same_core :: "job \<Rightarrow> job \<Rightarrow> bool" where
  "same_core a b = (b\<lparr>depends := depends a, depending := depending a, ignore := ignore a\<rparr> = a)"

definition fresh :: "job \<Rightarrow> bool" where
  "fresh b = (callbacks b = [] \<and> error_callbacks b = [] \<and> \<not> is_finished b \<and> scheduler b = None)"

definition grows :: "'fs state \<Rightarrow> 'fs state \<Rightarrow> bool" where
  "grows s s' =
     (job_count s \<le> job_count s'
      \<and> (\<forall>k<job_count s. same_core (heap s k) (heap s' k)
             \<and> set (depends (heap s' k)) \<subseteq> set (depends (heap s k)))
      \<and> (\<forall>k. job_count s \<le> k \<and> k < job_count s' \<longrightarrow> fresh (heap s' k))
      \<and> s'\<lparr>heap := heap s, job_count := job_count s, rules := rules s\<rparr> = s)"

definition graph_only :: "(job \<Rightarrow> job) \<Rightarrow> bool" where
  "graph_only g = (\<forall>a. same_core a (g a) \<and> set (depends (g a)) \<subseteq> set (depends a))"

definition attached :: "sched_ref \<Rightarrow> jobref \<Rightarrow> 'fs state \<Rightarrow> bool" where
  "attached sch j s =
     (scheduler (heap s j) = Some sch
      \<and> (case sch of Knapsack \<Rightarrow> j \<in> set (kjobs (ksched s)) | Cluster \<Rightarrow> j \<in> set (cjobs (csched s))))"

text \<open>
  Dynamic expansion: job 0 of rule \<open>R\<close> has finished and produced \<open>out/a.txt\<close>,
  \<open>out/b.txt\<close>, \<open>out/c.txt\<close> for its dynamic output \<open>out/{sample}.txt\<close>; job 1 of rule
  \<open>S\<close> has that pattern as dynamic input. The factory of \<open>expansion_ext m\<close> builds \<open>m\<close>
  leaf jobs and one job that depends on them, and returns the latter.
\<close>

definition sample_pattern :: iofile where
  "sample_pattern = \<lparr>path = ''out/{sample}.txt'', is_temp = False, is_protected = False\<rparr>"

definition expansion_ext :: "nat \<Rightarrow> string list ext" where
  "expansion_ext m =
     plain_ext\<lparr>
       listfiles := (\<lambda>f p. if p = ''out/{sample}.txt''
                           then [(''out/a.txt'', [(''sample'', ''a'')]), (''out/b.txt'', [(''sample'', ''b'')]),
                                 (''out/c.txt'', [(''sample'', ''c'')])]
                           else []),
       expand := (\<lambda>f w. Inr [''out/a.txt'', ''out/b.txt'', ''out/c.txt'']),
       rule_run := (\<lambda>s r t jobs forced.
                      (replicate m (default_job\<lparr>rule := 2\<rparr>)
                         @ [default_job\<lparr>rule := 1, depends := [job_count s..<job_count s + m]\<rparr>],
                       jobs, Inr (job_count s + m)))\<rparr>"

definition expansion_state :: "string list state" where
  "expansion_state =
     empty_state\<lparr>
       heap := (heap empty_state)
         (0 := default_job\<lparr>rule := 0, outputs := [sample_pattern], dynamic_output := True,
                           depending := [1], scheduler := Some Knapsack, is_finished := True, jobid := 0\<rparr>,
          1 := default_job\<lparr>rule := 1, input := [sample_pattern],
                           outputs := [\<lparr>path = ''all.txt'', is_temp = False, is_protected = False\<rparr>],
                           scheduler := Some Knapsack, jobid := 1\<rparr>),
       job_count := 2,
       rules := (\<lambda>k. if k = 0 then example_rule\<lparr>name := ''R'', routput := [sample_pattern],
                                                    dynamic := [''out/{sample}.txt'']\<rparr>
                       else if k = 1 then example_rule\<lparr>name := ''S'', rinput := [sample_pattern],
                                                    dynamic := [''out/{sample}.txt'']\<rparr>
                       else example_rule),
       jobcounter_count := 2,
       ksched := (ksched empty_state)\<lparr>kjobs := [1]\<rparr>\<rparr>"

text \<open>
  \<open>only_fs\<close>: only the file system changed. \<open>produced_ok\<close>: \<open>finished\<close> does not enter its
  \<open>try\<close> statement, or the statement completes without raising.
\<close>

definition only_fs :: "'fs state \<Rightarrow> 'fs state \<Rightarrow> bool" where
  "only_fs s s' = (s' = s\<lparr>fs := fs s'\<rparr>)"

definition produced_ok :: "'fs ext \<Rightarrow> future option \<Rightarrow> jobref \<Rightarrow> 'fs state \<Rightarrow> bool" where
  "produced_ok ext fut j s =
     (ignore (heap s j) \<or> \<not> needrun (heap s j) \<or> pseudo (heap s j)
      \<or> fst (check_produced ext fut j (update_job j (\<lambda>a. a\<lparr>is_finished := True\<rparr>) s)) = Return ())"

subsection \<open>The knapsack recurrence\<close>

text \<open>
  \<open>kval h jobs i c\<close> is the value the recurrence of \<open>_knapsack\<close> assigns to the first \<open>i\<close> jobs
  and capacity \<open>c\<close>; \<open>table_rows\<close> and \<open>table_cells\<close> say how much of the table \<open>K\<close> holds
  these values already.
\<close>

fun kval :: "(jobref \<Rightarrow> job) \<Rightarrow> jobref list \<Rightarrow> nat \<Rightarrow> int \<Rightarrow> int" where
  "kval h jobs 0 c = 0"
| "kval h jobs (Suc i) c =
     (let t = threads (h (jobs ! i))
      in if t > c then kval h jobs i c else max (kval h jobs i c) (t + kval h jobs i (c - t)))"

definition table_rows :: "(jobref \<Rightarrow> job) \<Rightarrow> jobref list \<Rightarrow> nat \<Rightarrow> nat \<Rightarrow> int list list \<Rightarrow> bool" where
  "table_rows h jobs C i K =
     (length K = length jobs + 1
      \<and> (\<forall>r \<le> length jobs. length (K ! r) = C \<and> K ! r ! 0 = 0)
      \<and> (\<forall>r < i. \<forall>q < C. K ! r ! q = kval h jobs r (int q)))"

definition table_cells :: "(jobref \<Rightarrow> job) \<Rightarrow> jobref list \<Rightarrow> nat \<Rightarrow> nat \<Rightarrow> nat \<Rightarrow> int list list \<Rightarrow> bool" where
  "table_cells h jobs C i j K =
     (table_rows h jobs C i K \<and> (\<forall>q < j. K ! i ! q = kval h jobs i (int q)))"

text \<open>Three ready jobs with 3, 2 and 2 threads, pending in the local scheduler with four cores.\<close>

definition three_ready_state :: "string list state" where
  "three_ready_state =
     empty_state\<lparr>heap := (heap empty_state)
         (0 := default_job\<lparr>threads := 3, jobid := 0, scheduler := Some Knapsack\<rparr>,
          1 := default_job\<lparr>threads := 2, jobid := 1, scheduler := Some Knapsack\<rparr>,
          2 := default_job\<lparr>threads := 2, jobid := 2, scheduler := Some Knapsack\<rparr>),
       job_count := 3,
       ksched := (ksched empty_state)\<lparr>kjobs := [0, 1, 2]\<rparr>\<rparr>"


text \<open>
  \<open>shrinks s s'\<close>: no existing job has gained an edge in \<open>depends\<close>. \<open>keeps_depends\<close>: no
  \<open>depends\<close> changed. \<open>holds_at_calls P prep call xs s\<close>: in the loop that runs
  \<open>call x (prep x s)\<close> for each \<open>x\<close> of \<open>xs\<close>, \<open>P x\<close> holds in the state each \<open>call\<close> starts in.
\<close>

definition shrinks :: "'fs state \<Rightarrow> 'fs state \<Rightarrow> bool" where
  "shrinks s s' =
     (job_count s \<le> job_count s'
      \<and> (\<forall>k<job_count s. set (depends (heap s' k)) \<subseteq> set (depends (heap s k))))"





section \<open>Properties\<close>

subsection \<open>Cleanup\<close>

text \<open>
  C10. For a job whose \<open>is_finished\<close> flag is already true, \<open>cleanup()\<close> does nothing:
  it returns normally and the whole state (file system and jobs) is unchanged.
\<close>

theorem cleanup_finished_noop:
  "is_finished (heap s j) \<Longrightarrow> cleanup ext j s = (Return (), s)"
  by (simp add: cleanup_def)

theorem cleanup_finished_noop_witness:
  "is_finished (heap finished_job_state 0)
   \<and> cleanup plain_ext 0 finished_job_state = (Return (), finished_job_state)"
  using cleanup_finished_noop [of finished_job_state 0 plain_ext]
  by (simp add: finished_job_state_def update_job_def)

lemma foreach_error_callbacks:
  "foreach cbs (call_error_callback j) s = (r, s') \<Longrightarrow>
     r = Return () \<and> fs s' = fs s \<and> heap s' = heap s
     \<and> fired s' = fired s @ map (\<lambda>cb. FiredError cb j) cbs"
  by (induction cbs arbitrary: s)
     (auto simp: call_error_callback_def knapsack_error_def Let_def split: error_callback.splits)

text \<open>
  C1. What \<open>finished(future)\<close> does when the future of a job with \<open>needrun\<close>, not
  \<open>pseudo\<close> (and not \<open>ignore\<close>) carries an exception: it returns after firing the error
  callbacks, and the file system is the one it started with. \<open>finished\<close> sets
  \<open>is_finished\<close> in its first statement, so the \<open>cleanup\<close> it calls in the handler finds the
  flag set and removes nothing.
\<close>

theorem finished_error_removes_nothing:
  assumes "needrun (heap s j)" "\<not> pseudo (heap s j)" "\<not> ignore (heap s j)"
    and "future_exception fut = Some ex"
  shows "fst (finished fuel ext (Some fut) j s) = Return ()
       \<and> fs (snd (finished fuel ext (Some fut) j s)) = fs s
       \<and> fired (snd (finished fuel ext (Some fut) j s))
           = fired s @ map (\<lambda>cb. FiredError cb j) (error_callbacks (heap s j))"
proof -
  let ?s1 = "logger (PrintException ex) (update_job j (\<lambda>a. a\<lparr>is_finished := True\<rparr>) s)"
  have f: "finished fuel ext (Some fut) j s
             = foreach (error_callbacks (heap s j)) (call_error_callback j) ?s1"
    using assms
    by (simp add: finished_def update_job_def check_produced_def on_error_def cleanup_def logger_def)
  obtain r s' where rs: "foreach (error_callbacks (heap s j)) (call_error_callback j) ?s1 = (r, s')"
    by (cases "foreach (error_callbacks (heap s j)) (call_error_callback j) ?s1")
  have "fs ?s1 = fs s" "fired ?s1 = fired s"
    by (simp_all add: logger_def update_job_def)
  with foreach_error_callbacks [OF rs] show ?thesis
    unfolding f rs by simp
qed

text \<open>
  The failing input: the output \<open>a/out.txt\<close> exists, the worker failed, and after
  \<open>finished\<close> the file is still there, although \<open>cleanup\<close> on the unfinished job removes it.
\<close>

theorem finished_error_removes_nothing_witness:
  "needrun (heap one_job_state 0) \<and> \<not> pseudo (heap one_job_state 0) \<and> \<not> ignore (heap one_job_state 0)
   \<and> path_exists plain_ext (fs one_job_state) ''a/out.txt''
   \<and> fs (snd (finished 0 plain_ext (Some (Future (Some (RuleException ''failed'')) 0)) 0 one_job_state))
       = [''a/out.txt'']
   \<and> fs (snd (cleanup plain_ext 0 one_job_state)) = []"
  using finished_error_removes_nothing
          [of one_job_state 0 "Future (Some (RuleException ''failed'')) 0" "RuleException ''failed''" 0 plain_ext]
  by (simp add: one_job_state_def empty_state_def default_job_def plain_ext_def cleanup_def
        is_dynamic_def job_rule_def example_rule_def fs_op_def)

subsection \<open>Names of the cluster script and its sentinels\<close>

text \<open>
  C7, as the code has it. When \<open>ClusterJobScheduler._run_job\<close> returns, it has handed the
  shell exactly the seven commands below, and the shell has run them without an exception:
  they write the script file \<open>.snakemake.<rule>..<outkey>.sh\<close> line by line, the line that
  runs the job touches \<open>.snakemake.<rule>..<outkey>.jobfinished\<close> on success and
  \<open>.snakemake.<rule>..<outkey>.jobfailed\<close> otherwise, the script is made executable and
  submitted with the submit command; and the watcher started afterwards holds the job with
  these two sentinels and the script. The prefix \<open>.snakemake.<rule>.\<close> ends with a dot and
  the format \<open>{}.{}.sh\<close> adds a second one. \<open><outkey>\<close> is the outputs joined by \<open>_\<close>
  with every \<open>/\<close> replaced by \<open>_\<close>.
\<close>

theorem cluster_run_job_names:
  assumes "cluster_run_job ext j s = (Return (), s')"
  shows "\<exists>P q a to_script.
           P = ''.snakemake.'' @ name (rules s (rule (heap s j))) @ ''..''
                 @ map (\<lambda>c. if c = CHR ''/'' then CHR ''_'' else c)
                     (str_join ''_'' (map path (outputs (heap s j))))
         \<and> q = [CHR 0x22] \<and> a = [CHR 0x27]
         \<and> to_script = '' >> '' @ q @ P @ ''.sh'' @ q
         \<and> shell ext
              [''echo '' @ a @ ''#!/bin/sh'' @ a @ '' > '' @ q @ P @ ''.sh'' @ q,
               ''echo '' @ a @ ''#rule: '' @ name (rules s (rule (heap s j))) @ a @ to_script,
               ''echo '' @ a @ ''#input: '' @ str_iofiles ext (input (heap s j)) @ a @ to_script,
               ''echo '' @ a @ ''#output: '' @ str_iofiles ext (outputs (heap s j)) @ a @ to_script,
               ''echo '' @ a
                  @ (case scriptpath s of None \<Rightarrow> ''snakemake''
                     | Some p \<Rightarrow> if p = [] then ''snakemake'' else p)
                  @ '' --force -j''
                  @ (case ccores (csched s) of None \<Rightarrow> ''None'' | Some c \<Rightarrow> str_int c)
                  @ '' --directory '' @ getcwd ext
                  @ '' --nocolor --quiet '' @ str_iofiles ext (outputs (heap s j))
                  @ '' && touch '' @ q @ P @ ''.jobfinished'' @ q
                  @ '' || touch '' @ q @ P @ ''.jobfailed'' @ q @ a @ to_script,
               ''chmod +x '' @ q @ P @ ''.sh'' @ q,
               submitcmd (csched s) @ '' '' @ q @ P @ ''.sh'' @ q]
              (fs s) = (None, fs s')
         \<and> watchers (csched s') = watchers (csched s) @
             [(j, P @ ''.jobfinished'', P @ ''.jobfailed'', P @ ''.sh'')]"
proof -
  obtain m where m: "get_message ext s j = Inr m"
    using assms by (auto simp: cluster_run_job_def print_message_def split: sum.splits)
  let ?s1 = "logger (Info m) s"
  have f: "fs ?s1 = fs s" "heap ?s1 = heap s" "rules ?s1 = rules s" "csched ?s1 = csched s"
    "scriptpath ?s1 = scriptpath s"
    by (simp_all add: logger_def)
  obtain f' where sh: "shell ext (cluster_script ext ?s1 j) (fs s) = (None, f')"
    and s': "s' = (?s1\<lparr>fs := f'\<rparr>)\<lparr>csched := (csched ?s1)\<lparr>watchers := watchers (csched ?s1)
                 @ [(j, jobfinished (?s1\<lparr>fs := f'\<rparr>) j, jobfailed (?s1\<lparr>fs := f'\<rparr>) j,
                       jobscript (?s1\<lparr>fs := f'\<rparr>) j)]\<rparr>\<rparr>"
    using assms m
    by (auto simp: cluster_run_job_def print_message_def fs_op_def f
          split: prod.splits option.splits)
  have fs': "fs s' = f'" unfolding s' by simp
  have n: "jobscript (?s1\<lparr>fs := f'\<rparr>) j = jobscript s j"
      "jobfinished (?s1\<lparr>fs := f'\<rparr>) j = jobfinished s j"
      "jobfailed (?s1\<lparr>fs := f'\<rparr>) j = jobfailed s j"
    by (simp_all add: jobscript_def jobfinished_def jobfailed_def cluster_prefix_def
          cluster_jobid_def job_rule_def logger_def)
  have w: "watchers (csched s') = watchers (csched s)
             @ [(j, jobfinished s j, jobfailed s j, jobscript s j)]"
    unfolding s' n by (simp add: logger_def)
  have c: "cluster_script ext ?s1 j = cluster_script ext s j"
    by (simp add: cluster_script_def jobscript_def jobfinished_def jobfailed_def cluster_prefix_def
          cluster_jobid_def job_rule_def logger_def)
  show ?thesis
    using sh w unfolding c fs'[symmetric]
    by (simp add: cluster_script_def jobscript_def jobfinished_def jobfailed_def cluster_prefix_def
          cluster_jobid_def job_rule_def str_replace_def Let_def)
qed

text \<open>
  The job of rule \<open>r\<close> with output \<open>a/out.txt\<close>, with a shell that appends the commands
  it is given to the file system: the seven commands and the watcher.
\<close>

theorem cluster_run_job_names_witness:
  "fst (cluster_run_job script_ext 0 one_job_state) = Return ()
   \<and> fs (snd (cluster_run_job script_ext 0 one_job_state))
       = [''a/out.txt'',
          ''echo '' @ [CHR 0x27] @ ''#!/bin/sh'' @ [CHR 0x27] @ '' > ''
             @ [CHR 0x22] @ ''.snakemake.r..a_out.txt.sh'' @ [CHR 0x22],
          ''echo '' @ [CHR 0x27] @ ''#rule: r'' @ [CHR 0x27] @ '' >> ''
             @ [CHR 0x22] @ ''.snakemake.r..a_out.txt.sh'' @ [CHR 0x22],
          ''echo '' @ [CHR 0x27] @ ''#input: '' @ [CHR 0x27] @ '' >> ''
             @ [CHR 0x22] @ ''.snakemake.r..a_out.txt.sh'' @ [CHR 0x22],
          ''echo '' @ [CHR 0x27] @ ''#output: a/out.txt'' @ [CHR 0x27] @ '' >> ''
             @ [CHR 0x22] @ ''.snakemake.r..a_out.txt.sh'' @ [CHR 0x22],
          ''echo '' @ [CHR 0x27]
             @ ''snakemake --force -jNone --directory /work --nocolor --quiet a/out.txt && touch ''
             @ [CHR 0x22] @ ''.snakemake.r..a_out.txt.jobfinished'' @ [CHR 0x22] @ '' || touch ''
             @ [CHR 0x22] @ ''.snakemake.r..a_out.txt.jobfailed'' @ [CHR 0x22] @ [CHR 0x27] @ '' >> ''
             @ [CHR 0x22] @ ''.snakemake.r..a_out.txt.sh'' @ [CHR 0x22],
          ''chmod +x '' @ [CHR 0x22] @ ''.snakemake.r..a_out.txt.sh'' @ [CHR 0x22],
          ''qsub '' @ [CHR 0x22] @ ''.snakemake.r..a_out.txt.sh'' @ [CHR 0x22]]
   \<and> watchers (csched (snd (cluster_run_job script_ext 0 one_job_state)))
       = [(0, ''.snakemake.r..a_out.txt.jobfinished'', ''.snakemake.r..a_out.txt.jobfailed'',
              ''.snakemake.r..a_out.txt.sh'')]"
proof -
  have r: "cluster_run_job script_ext 0 one_job_state
             = (Return (), snd (cluster_run_job script_ext 0 one_job_state))"
    by (simp add: cluster_run_job_def print_message_def get_message_def show_files_def
          fs_op_def script_ext_def plain_ext_def Let_def one_job_state_def empty_state_def
          default_job_def truthy_def job_rule_def example_rule_def is_dynamic_def logger_def
          split: sum.splits)
  have "fst (cluster_run_job script_ext 0 one_job_state) = Return ()"
    using r by (metis fst_conv)
  moreover have "watchers (csched one_job_state) = []"
      "name (rules one_job_state (rule (heap one_job_state 0))) = ''r''"
      "map path (outputs (heap one_job_state 0)) = [''a/out.txt'']"
      "input (heap one_job_state 0) = []"
      "outputs (heap one_job_state 0) = [\<lparr>path = ''a/out.txt'', is_temp = False, is_protected = False\<rparr>]"
      "scriptpath one_job_state = None" "ccores (csched one_job_state) = None"
      "submitcmd (csched one_job_state) = ''qsub''" "fs one_job_state = [''a/out.txt'']"
      "getcwd script_ext = ''/work''"
      "str_iofiles script_ext = (\<lambda>fl. str_join '' '' (map path fl))"
      "shell script_ext = (\<lambda>cmds f. (None, f @ cmds))"
    by (simp_all add: one_job_state_def empty_state_def example_rule_def default_job_def
          script_ext_def plain_ext_def)
  ultimately show ?thesis
    using cluster_run_job_names [OF r] by (simp add: str_join_def)
qed

text \<open>The script of the job of rule \<open>r\<close> with output \<open>a/out.txt\<close> is not \<open>.snakemake.r.a_out.txt.sh\<close>.\<close>

theorem cluster_script_name_counterexample:
  "jobscript one_job_state 0 = ''.snakemake.r..a_out.txt.sh''
   \<and> jobscript one_job_state 0 \<noteq> ''.snakemake.r.a_out.txt.sh''"
  by (simp add: jobscript_def cluster_prefix_def cluster_jobid_def job_rule_def one_job_state_def
        empty_state_def example_rule_def str_join_def str_replace_def)

subsection \<open>Failed expansion of a dynamic input\<close>

lemma expand_inputs_fail:
  "f \<in> set fl \<Longrightarrow> is_dynamic r f \<Longrightarrow> expand ext f w = Inl e
     \<Longrightarrow> expand_inputs ext r w i fl acc = None"
  by (induction fl arbitrary: i acc) (auto split: sum.splits)

text \<open>
  C9. If the expansion of some dynamic input of the ancestor's rule fails,
  \<open>handle_dynamic_input\<close> returns no replacement job and the state is the one it was called
  in: the rule's input list, its dynamic flags and every edge are unchanged.
\<close>

theorem handle_dynamic_input_failed_expansion:
  assumes "f \<in> set (rinput (job_rule s self))" "is_dynamic (job_rule s self) f"
    and "expand ext f w = Inl e"
  shows "handle_dynamic_input ext w jobs self s = ((None, jobs), s)"
  using expand_inputs_fail [OF assms, of 0 "[]"]
  by (simp add: handle_dynamic_input_def job_rule_def Let_def)

theorem handle_dynamic_input_failed_expansion_witness:
  "\<lparr>path = ''in/{sample}.txt'', is_temp = False, is_protected = False\<rparr>
       \<in> set (rinput (job_rule dynamic_input_state 0))
   \<and> is_dynamic (job_rule dynamic_input_state 0)
       \<lparr>path = ''in/{sample}.txt'', is_temp = False, is_protected = False\<rparr>
   \<and> expand failing_expand_ext \<lparr>path = ''in/{sample}.txt'', is_temp = False, is_protected = False\<rparr>
       [(''sample'', [''a''])] = Inl KeyError
   \<and> handle_dynamic_input failing_expand_ext [(''sample'', [''a''])] [] 0 dynamic_input_state
       = ((None, []), dynamic_input_state)"
  using handle_dynamic_input_failed_expansion
          [of "\<lparr>path = ''in/{sample}.txt'', is_temp = False, is_protected = False\<rparr>"
              dynamic_input_state 0 failing_expand_ext "[(''sample'', [''a''])]" KeyError "[]"]
  by (simp add: dynamic_input_state_def job_rule_def is_dynamic_def failing_expand_ext_def
        example_rule_def)

subsection \<open>What dynamic expansion leaves unchanged\<close>

lemma same_core_refl [simp]: "same_core a a"
  by (simp add: same_core_def)

lemma same_core_trans: "same_core a b \<Longrightarrow> same_core b c \<Longrightarrow> same_core a c"
  unfolding same_core_def
  by (cases a; cases b; cases c; simp)

lemma same_core_fields:
  assumes "same_core a b"
  shows "callbacks b = callbacks a" "error_callbacks b = error_callbacks a" "needrun b = needrun a"
    "pseudo b = pseudo a" "threads b = threads a" "is_finished b = is_finished a"
    "scheduler b = scheduler a" "dryrun b = dryrun a" "dynamic_output b = dynamic_output a"
    "outputs b = outputs a" "rule b = rule a" "touch b = touch a"
  using assms unfolding same_core_def
  by (cases a; cases b; simp)+

lemma same_core_fresh: "same_core a b \<Longrightarrow> fresh a \<Longrightarrow> fresh b"
  by (simp add: fresh_def same_core_fields)

lemma grows_refl [simp]: "grows s s"
  by (auto simp: grows_def)

lemma grows_trans:
  assumes "grows s s1" "grows s1 s2"
  shows "grows s s2"
proof -
  have c: "job_count s \<le> job_count s1" "job_count s1 \<le> job_count s2"
    using assms by (simp_all add: grows_def)
  have a: "\<forall>k<job_count s. same_core (heap s k) (heap s2 k)
             \<and> set (depends (heap s2 k)) \<subseteq> set (depends (heap s k))"
  proof (intro allI impI)
    fix k assume k: "k < job_count s"
    then have k1: "k < job_count s1" using c by simp
    from assms(1) k have 1: "same_core (heap s k) (heap s1 k)" "set (depends (heap s1 k)) \<subseteq> set (depends (heap s k))"
      by (simp_all add: grows_def)
    from assms(2) k1 have 2: "same_core (heap s1 k) (heap s2 k)" "set (depends (heap s2 k)) \<subseteq> set (depends (heap s1 k))"
      by (simp_all add: grows_def)
    show "same_core (heap s k) (heap s2 k) \<and> set (depends (heap s2 k)) \<subseteq> set (depends (heap s k))"
      using 1 2 same_core_trans by blast
  qed
  have b: "\<forall>k. job_count s \<le> k \<and> k < job_count s2 \<longrightarrow> fresh (heap s2 k)"
  proof (intro allI impI)
    fix k assume k: "job_count s \<le> k \<and> k < job_count s2"
    show "fresh (heap s2 k)"
    proof (cases "k < job_count s1")
      case True
      with k assms(1) have "fresh (heap s1 k)" by (simp add: grows_def)
      moreover from True assms(2) have "same_core (heap s1 k) (heap s2 k)" by (simp add: grows_def)
      ultimately show ?thesis by (rule same_core_fresh[rotated])
    next
      case False
      with k assms(2) show ?thesis by (simp add: grows_def)
    qed
  qed
  have d1: "s1\<lparr>heap := heap s, job_count := job_count s, rules := rules s\<rparr> = s"
    and d2: "s2\<lparr>heap := heap s1, job_count := job_count s1, rules := rules s1\<rparr> = s1"
    using assms by (simp_all add: grows_def)
  have d: "s2\<lparr>heap := heap s, job_count := job_count s, rules := rules s\<rparr> = s"
  proof -
    have "s2\<lparr>heap := heap s, job_count := job_count s, rules := rules s\<rparr>
        = (s2\<lparr>heap := heap s1, job_count := job_count s1, rules := rules s1\<rparr>)
             \<lparr>heap := heap s, job_count := job_count s, rules := rules s\<rparr>" by simp
    also have "\<dots> = s" by (simp only: d2 d1)
    finally show ?thesis .
  qed
  show ?thesis unfolding grows_def using c a b d by simp
qed

lemma grows_update_job: "graph_only g \<Longrightarrow> grows s (update_job k g s)"
  by (auto simp: grows_def update_job_def graph_only_def)

lemma grows_rules: "grows s (s\<lparr>rules := r\<rparr>)"
  by (auto simp: grows_def)

lemma grows_fields:
  assumes "grows s s'"
  shows "fs s' = fs s" "fired s' = fired s" "logged s' = logged s" "ksched s' = ksched s"
    "csched s' = csched s" "jobcounter_count s' = jobcounter_count s" "jobcounter_done s' = jobcounter_done s"
    "runtimes s' = runtimes s" "scriptpath s' = scriptpath s" "workflow_cores s' = workflow_cores s"
proof -
  have e: "s'\<lparr>heap := heap s, job_count := job_count s, rules := rules s\<rparr> = s"
    using assms by (simp add: grows_def)
  show "fs s' = fs s" using arg_cong[OF e, of fs] by simp
  show "fired s' = fired s" using arg_cong[OF e, of fired] by simp
  show "logged s' = logged s" using arg_cong[OF e, of logged] by simp
  show "ksched s' = ksched s" using arg_cong[OF e, of ksched] by simp
  show "csched s' = csched s" using arg_cong[OF e, of csched] by simp
  show "jobcounter_count s' = jobcounter_count s" using arg_cong[OF e, of jobcounter_count] by simp
  show "jobcounter_done s' = jobcounter_done s" using arg_cong[OF e, of jobcounter_done] by simp
  show "runtimes s' = runtimes s" using arg_cong[OF e, of runtimes] by simp
  show "scriptpath s' = scriptpath s" using arg_cong[OF e, of scriptpath] by simp
  show "workflow_cores s' = workflow_cores s" using arg_cong[OF e, of workflow_cores] by simp
qed

lemma foreach_rel:
  assumes refl: "\<And>s. R s s"
    and trans: "\<And>s s1 s2. R s s1 \<Longrightarrow> R s1 s2 \<Longrightarrow> R s s2"
    and step: "\<And>x s r s'. x \<in> set xs \<Longrightarrow> f x s = (r, s') \<Longrightarrow> R s s'"
  shows "foreach xs f s = (r, s') \<Longrightarrow> R s s'"
  using step
proof (induction xs arbitrary: s)
  case Nil
  then show ?case by (simp add: refl)
next
  case (Cons x xs)
  obtain r1 s1 where f: "f x s = (r1, s1)" by (cases "f x s")
  have 1: "R s s1" using Cons.prems(2)[OF _ f] by simp
  have st: "\<And>y t q t'. y \<in> set xs \<Longrightarrow> f y t = (q, t') \<Longrightarrow> R t t'"
    using Cons.prems(2) by (meson list.set_intros(2))
  show ?case
  proof (cases r1)
    case (Return u)
    with Cons.prems(1) f have "foreach xs f s1 = (r, s')" by simp
    then have "R s1 s'" using Cons.IH st by blast
    with 1 show ?thesis by (rule trans)
  next
    case (Raise e)
    with Cons.prems(1) f 1 show ?thesis by simp
  next
    case Diverge
    with Cons.prems(1) f 1 show ?thesis by simp
  qed
qed

lemma fold_rel:
  assumes refl: "\<And>s. R s s"
    and trans: "\<And>s s1 s2. R s s1 \<Longrightarrow> R s1 s2 \<Longrightarrow> R s s2"
    and step: "\<And>x s. R s (f x s)"
  shows "R s (fold f xs s)"
proof (induction xs arbitrary: s)
  case Nil
  show ?case by (simp add: refl)
next
  case (Cons x xs)
  have "R s (f x s)" by (rule step)
  moreover have "R (f x s) (fold f xs (f x s))" by (rule Cons.IH)
  ultimately show ?case by (simp add: trans)
qed

lemma graph_only_depending: "graph_only (\<lambda>b. b\<lparr>depending := g b\<rparr>)"
  by (simp add: graph_only_def same_core_def)

lemma graph_only_remove: "graph_only (\<lambda>b. b\<lparr>depends := removeAll x (depends b)\<rparr>)"
  by (auto simp: graph_only_def same_core_def)

lemma graph_only_clear: "graph_only (\<lambda>a. a\<lparr>depends := [], ignore := True\<rparr>)"
  by (simp add: graph_only_def same_core_def)

lemma grows_job_init: "grows s (snd (job_init args s))"
proof -
  let ?n = "job_count s"
  let ?new = "args\<lparr>scheduler := None, depends := remdups (depends args), depending := [],
                     is_finished := False, callbacks := [], error_callbacks := [],
                     jobid := ?n, ignore := False\<rparr>"
  let ?s1 = "s\<lparr>heap := (heap s)(?n := ?new), job_count := ?n + 1\<rparr>"
  have 1: "grows s ?s1"
    by (auto simp: grows_def fresh_def)
  have 2: "grows ?s1 (fold (\<lambda>other. update_job other (\<lambda>b. b\<lparr>depending := depending b @ [?n]\<rparr>)) (depends ?new) ?s1)"
    by (rule fold_rel[where R=grows]) (auto intro: grows_trans grows_update_job graph_only_depending)
  show ?thesis
    using grows_trans[OF 1 2] by (simp add: job_init_def Let_def)
qed

lemma grows_create_jobs: "grows s (create_jobs specs s)"
  unfolding create_jobs_def
  by (rule fold_rel[where R=grows]) (auto intro: grows_trans grows_job_init)

lemma grows_remove_depending: "remove_depending self j s = (r, s') \<Longrightarrow> grows s s'"
  by (auto simp: remove_depending_def split: sum.splits intro: grows_update_job graph_only_depending)

lemma grows_remove_depends: "remove_depends self j s = (r, s') \<Longrightarrow> grows s s'"
  by (auto simp: remove_depends_def split: if_splits intro: grows_update_job graph_only_remove)

lemma grows_splice: "splice self s = (r, s') \<Longrightarrow> grows s s'"
proof -
  assume a: "splice self s = (r, s')"
  obtain r1 s1 where 1: "foreach (depends (heap s self)) (remove_depending self) s = (r1, s1)"
    by (cases "foreach (depends (heap s self)) (remove_depending self) s")
  have g1: "grows s s1"
    by (rule foreach_rel[where R=grows, OF _ _ _ 1]) (auto intro: grows_trans grows_remove_depending)
  obtain r2 s2 where 2: "foreach (depending (heap s1 self)) (remove_depends self) s1 = (r2, s2)"
    by (cases "foreach (depending (heap s1 self)) (remove_depends self) s1")
  have g2: "grows s1 s2"
    by (rule foreach_rel[where R=grows, OF _ _ _ 2]) (auto intro: grows_trans grows_remove_depends)
  have g3: "grows s2 (update_job self (\<lambda>a. a\<lparr>depends := [], ignore := True\<rparr>) s2)"
    by (rule grows_update_job[OF graph_only_clear])
  show ?thesis
    using a 1 2 g1 grows_trans[OF g1 g2] grows_trans[OF grows_trans[OF g1 g2] g3]
    by (auto simp: splice_def split: outcome.splits)
qed

lemma grows_handle_dynamic_input:
  "handle_dynamic_input ext w jobs self s = (r, s') \<Longrightarrow> grows s s'"
proof -
  assume a: "handle_dynamic_input ext w jobs self s = (r, s')"
  show ?thesis
  proof (cases "expand_inputs ext (rules s (rule (heap s self))) w 0 (rinput (rules s (rule (heap s self)))) []")
    case None
    with a show ?thesis by (simp add: handle_dynamic_input_def Let_def)
  next
    case (Some expansion)
    show ?thesis
    proof (cases "expansion = []")
      case True
      with a Some show ?thesis by (simp add: handle_dynamic_input_def Let_def)
    next
      case False
      let ?rr = "rule (heap s self)"
      let ?s1 = "s\<lparr>rules := (rules s)(?rr := fold replace_input (rev expansion) (rules s ?rr))\<rparr>"
      let ?target = "(case outputs (heap ?s1 self) of [] \<Rightarrow> None | out # rest \<Rightarrow> Some out)"
      obtain specs jobs1 res where rr: "rule_run ext ?s1 ?rr ?target jobs (forced (heap ?s1 self)) = (specs, jobs1, res)"
        by (cases "rule_run ext ?s1 ?rr ?target jobs (forced (heap ?s1 self))")
      let ?s2 = "create_jobs specs ?s1"
      have g2: "grows s ?s2"
        by (rule grows_trans[OF grows_rules grows_create_jobs])
      show ?thesis
      proof (cases res)
        case (Inl e)
        with a Some False rr g2 show ?thesis
          by (simp add: handle_dynamic_input_def Let_def)
      next
        case (Inr job)
        obtain r3 s3 where sp: "splice self ?s2 = (r3, s3)" by (cases "splice self ?s2")
        have "grows s s3" by (rule grows_trans[OF g2 grows_splice[OF sp]])
        moreover have "s' = s3"
          using a Some False rr Inr sp
          by (simp add: handle_dynamic_input_def Let_def split: outcome.splits)
        ultimately show ?thesis by simp
      qed
    qed
  qed
qed

lemma grows_ancestors_loop:
  "ancestors_loop n ext w jobs queue visited new_jobs dyn s = (r, s') \<Longrightarrow> grows s s'"
proof (induction n ext w jobs queue visited new_jobs dyn s rule: ancestors_loop.induct)
  case (1 n ext w jobs visited new_jobs dyn s)
  then show ?case by simp
next
  case (2 ext w jobs job queue visited new_jobs dyn s)
  then show ?case by simp
next
  case (3 n ext w jobs job queue visited new_jobs dyn s)
  obtain queue1 visited1 where e: "enqueue (depending (heap s job)) (queue, visited) = (queue1, visited1)"
    by (cases "enqueue (depending (heap s job)) (queue, visited)")
  obtain ro jobs1 s1 where h: "handle_dynamic_input ext w jobs job s = ((ro, jobs1), s1)"
    by (cases "handle_dynamic_input ext w jobs job s") auto
  have g1: "grows s s1" by (rule grows_handle_dynamic_input[OF h])
  show ?case
  proof (cases ro)
    case None
    with "3.prems" e h have "ancestors_loop n ext w jobs1 queue1 visited1 new_jobs dyn s1 = (r, s')"
      by simp
    then have "grows s1 s'"
      by (rule "3.IH"(1)[OF refl e[symmetric] h[symmetric] refl None])
    with g1 show ?thesis by (rule grows_trans)
  next
    case (Some j)
    show ?thesis
    proof (cases "all_jobs (recursion_limit ext) (heap s1) j")
      case None
      with "3.prems" e h Some g1 show ?thesis by simp
    next
      case (Some js)
      with "3.prems" e h \<open>ro = Some j\<close>
      have "ancestors_loop n ext w jobs1 queue1 visited1 (set_update new_jobs js) (dyn + 1) s1 = (r, s')"
        by simp
      then have "grows s1 s'"
        by (rule "3.IH"(2)[OF refl e[symmetric] h[symmetric] refl \<open>ro = Some j\<close> Some])
      with g1 show ?thesis by (rule grows_trans)
    qed
  qed
qed

lemma distinct_set_add: "distinct xs \<Longrightarrow> distinct (set_add x xs)"
  by (simp add: set_add_def)

lemma set_set_add [simp]: "set (set_add x xs) = insert x (set xs)"
  by (auto simp: set_add_def)

lemma distinct_set_update: "distinct xs \<Longrightarrow> distinct (set_update xs ys)"
  unfolding set_update_def
  by (induction ys arbitrary: xs) (simp_all add: distinct_set_add)

lemma set_set_update [simp]: "set (set_update xs ys) = set xs \<union> set ys"
  unfolding set_update_def
  by (induction ys arbitrary: xs) auto

lemma distinct_ancestors_loop:
  "ancestors_loop n ext w jobs queue visited new_jobs dyn s = (Return (nj, d), s')
     \<Longrightarrow> distinct new_jobs \<Longrightarrow> distinct nj"
proof (induction n ext w jobs queue visited new_jobs dyn s rule: ancestors_loop.induct)
  case (1 n ext w jobs visited new_jobs dyn s)
  then show ?case by simp
next
  case (2 ext w jobs job queue visited new_jobs dyn s)
  then show ?case by simp
next
  case (3 n ext w jobs job queue visited new_jobs dyn s)
  obtain queue1 visited1 where e: "enqueue (depending (heap s job)) (queue, visited) = (queue1, visited1)"
    by (cases "enqueue (depending (heap s job)) (queue, visited)")
  obtain ro jobs1 s1 where h: "handle_dynamic_input ext w jobs job s = ((ro, jobs1), s1)"
    by (cases "handle_dynamic_input ext w jobs job s") auto
  show ?case
  proof (cases ro)
    case None
    with "3.prems" e h have "ancestors_loop n ext w jobs1 queue1 visited1 new_jobs dyn s1 = (Return (nj, d), s')"
      by simp
    then show ?thesis
      using "3.IH"(1)[OF refl e[symmetric] h[symmetric] refl None] "3.prems"(2) by simp
  next
    case (Some j)
    show ?thesis
    proof (cases "all_jobs (recursion_limit ext) (heap s1) j")
      case None
      with "3.prems" e h Some show ?thesis by simp
    next
      case (Some js)
      with "3.prems" e h \<open>ro = Some j\<close>
      have "ancestors_loop n ext w jobs1 queue1 visited1 (set_update new_jobs js) (dyn + 1) s1 = (Return (nj, d), s')"
        by simp
      then show ?thesis
        using "3.IH"(2)[OF refl e[symmetric] h[symmetric] refl \<open>ro = Some j\<close> Some]
          distinct_set_update[OF "3.prems"(2)] by simp
    qed
  qed
qed

lemma add_job_fields [simp]:
  "logged (add_job sch j s) = logged s" "jobcounter_count (add_job sch j s) = jobcounter_count s"
  "fired (add_job sch j s) = fired s" "job_count (add_job sch j s) = job_count s"
  "fs (add_job sch j s) = fs s"
  by (simp_all add: add_job_def update_job_def Let_def split: sched_ref.splits)

lemma add_jobs_fields [simp]:
  "logged (add_jobs sch js s) = logged s" "jobcounter_count (add_jobs sch js s) = jobcounter_count s"
  "fired (add_jobs sch js s) = fired s" "job_count (add_jobs sch js s) = job_count s"
  "fs (add_jobs sch js s) = fs s"
  unfolding add_jobs_def by (induction js arbitrary: s; simp)+

lemma attached_add_job: "attached sch j (add_job sch j s)"
  by (simp add: attached_def add_job_def update_job_def Let_def split: sched_ref.splits)

lemma attached_add_job_other: "attached sch j s \<Longrightarrow> attached sch j (add_job sch k s)"
  by (auto simp: attached_def add_job_def update_job_def Let_def split: sched_ref.splits)

lemma attached_add_jobs_keep: "attached sch j s \<Longrightarrow> attached sch j (add_jobs sch js s)"
  unfolding add_jobs_def
  by (induction js arbitrary: s) (simp_all add: attached_add_job_other)

lemma attached_add_jobs: "j \<in> set js \<Longrightarrow> attached sch j (add_jobs sch js s)"
proof (induction js arbitrary: s)
  case Nil
  then show ?case by simp
next
  case (Cons k js)
  show ?case
  proof (cases "j = k")
    case True
    have "attached sch j (add_jobs sch js (add_job sch k s))"
      unfolding True by (rule attached_add_jobs_keep[OF attached_add_job])
    then show ?thesis by (simp add: add_jobs_def)
  next
    case False
    with Cons.prems have "j \<in> set js" by simp
    from Cons.IH[OF this] show ?thesis by (simp add: add_jobs_def)
  qed
qed

lemma attached_counter: "attached sch j (s\<lparr>jobcounter_count := c\<rparr>) = attached sch j s"
  by (cases sch) (simp_all add: attached_def)

lemma grows_discard: "grows s (snd (foreach js (discard_depends self) s))"
proof -
  obtain r s' where f: "foreach js (discard_depends self) s = (r, s')"
    by (cases "foreach js (discard_depends self) s")
  have "grows s s'"
    by (rule foreach_rel[where R=grows, OF _ _ _ f])
       (auto simp: discard_depends_def intro: grows_trans grows_remove_depends[OF surjective_pairing])
  with f show ?thesis by simp
qed

lemma add_jobs_other: "j \<notin> set js \<Longrightarrow> heap (add_jobs sch js s) j = heap s j"
  unfolding add_jobs_def
  by (induction js arbitrary: s)
     (auto simp: add_job_def update_job_def Let_def split: sched_ref.splits)

lemma same_core_scheduler: "same_core a b \<Longrightarrow> scheduler b = scheduler a"
  unfolding same_core_def by (cases a; cases b; simp)

lemma hdo_accounting:
  assumes "handle_dynamic_output fuel ext self s = (Return (), s')"
  shows "\<exists>w new_jobs dyn s1 sch.
           collect_wildcards ext (fs s) (job_rule s self) 0 (outputs (heap s self)) [] = Inr w
         \<and> ancestors_loop fuel ext w [((outputs (heap s self), rule (heap s self)), self)]
              (depending (heap s self)) (remdups (depending (heap s self))) [] 0 s
             = (Return (new_jobs, dyn), s1)
         \<and> distinct (removeAll self new_jobs)
         \<and> jobcounter_count s' = jobcounter_count s + (int (length (removeAll self new_jobs)) - dyn)
         \<and> logged s' = logged s @
              (if int (length (removeAll self new_jobs)) - dyn = 0 then []
               else [Warning (''Dynamically adding '' @ str_int (int (length (removeAll self new_jobs)) - dyn)
                              @ '' new jobs'')])
         \<and> scheduler (heap s' self) = Some sch
         \<and> (self < job_count s \<longrightarrow> scheduler (heap s self) = Some sch)
         \<and> (\<forall>j \<in> set (removeAll self new_jobs). attached sch j s')"
proof -
  obtain w where w: "collect_wildcards ext (fs s) (job_rule s self) 0 (outputs (heap s self)) [] = Inr w"
    using assms by (auto simp: handle_dynamic_output_def split: sum.splits)
  let ?loop = "ancestors_loop fuel ext w [((outputs (heap s self), rule (heap s self)), self)]
              (depending (heap s self)) (remdups (depending (heap s self))) [] 0 s"
  obtain new_jobs dyn s1 where l: "?loop = (Return (new_jobs, dyn), s1)"
    using assms w by (auto simp: handle_dynamic_output_def Let_def split: outcome.splits prod.splits)
  let ?added = "removeAll self new_jobs"
  let ?n = "int (length ?added) - dyn"
  let ?s2 = "if self \<in> set new_jobs then snd (foreach (depending (heap s1 self)) (discard_depends self) s1) else s1"
  let ?s3 = "if ?n \<noteq> 0 then logger (Warning (''Dynamically adding '' @ str_int ?n @ '' new jobs'')) ?s2 else ?s2"
  have g1: "grows s s1" by (rule grows_ancestors_loop[OF l])
  have g2: "grows s1 ?s2" by (simp add: grows_discard)
  have g: "grows s ?s2" by (rule grows_trans[OF g1 g2])
  have added: "(if self \<in> set new_jobs then removeAll self new_jobs else new_jobs) = ?added"
    by simp
  obtain sch where sch: "scheduler (heap ?s3 self) = Some sch"
    and s': "s' = (add_jobs sch ?added ?s3)\<lparr>jobcounter_count := jobcounter_count (add_jobs sch ?added ?s3) + ?n\<rparr>"
    using assms w l
    by (auto simp: handle_dynamic_output_def Let_def split: option.splits if_splits)
  have d: "distinct ?added"
    using distinct_ancestors_loop[OF l] by (simp add: distinct_removeAll)
  have c: "jobcounter_count s' = jobcounter_count s + ?n"
    unfolding s' using grows_fields(6)[OF g] by (simp add: logger_def)
  have lg: "logged s' = logged s @ (if ?n = 0 then [] else [Warning (''Dynamically adding '' @ str_int ?n @ '' new jobs'')])"
    unfolding s' using grows_fields(3)[OF g] by (simp add: logger_def)
  have at: "\<forall>j \<in> set ?added. attached sch j s'"
  proof
    fix j assume "j \<in> set ?added"
    then have "attached sch j (add_jobs sch ?added ?s3)" by (rule attached_add_jobs)
    then show "attached sch j s'" unfolding s' by (simp only: attached_counter)
  qed
  have h3: "heap ?s3 = heap ?s2" by (simp add: logger_def)
  have own': "scheduler (heap s' self) = Some sch"
    unfolding s' using sch by (simp add: add_jobs_other)
  have own: "self < job_count s \<longrightarrow> scheduler (heap s self) = Some sch"
  proof
    assume "self < job_count s"
    then have "same_core (heap s self) (heap ?s2 self)" using g by (simp add: grows_def)
    then have "scheduler (heap ?s2 self) = scheduler (heap s self)"
      by (rule same_core_scheduler)
    then show "scheduler (heap s self) = Some sch" using sch h3 by simp
  qed
  show ?thesis using w l d c lg own' own at by blast
qed

subsection \<open>Accounting of dynamic expansion\<close>


lemma descendants_unfold:
  "0 < d \<Longrightarrow> descendants d h j =
     map_option concat (those (map (\<lambda>k. map_option (Cons k) (descendants (d - 1) h k)) (depends (h j))))"
  by (cases d) simp_all

lemma single_ancestor_loop:
  assumes "depending (heap s a) = []"
    and "handle_dynamic_input ext w jobs a s = ((Some j, jobs1), s1)"
    and "all_jobs (recursion_limit ext) (heap s1) j = Some js"
  shows "ancestors_loop (Suc n) ext w jobs [a] [a] [] 0 s = (Return (set_update [] js, 1), s1)"
  using assms by (simp add: enqueue_def)

lemma hdo_returns:
  assumes "collect_wildcards ext (fs s) (job_rule s self) 0 (outputs (heap s self)) [] = Inr w"
    and "ancestors_loop fuel ext w [((outputs (heap s self), rule (heap s self)), self)]
              (depending (heap s self)) (remdups (depending (heap s self))) [] 0 s
             = (Return (new_jobs, dyn), s1)"
    and "self \<notin> set new_jobs"
    and "scheduler (heap s1 self) = Some sch"
  shows "fst (handle_dynamic_output fuel ext self s) = Return ()"
  using assms by (simp add: handle_dynamic_output_def Let_def logger_def)

lemma two_hdi:
  "fst (handle_dynamic_input (expansion_ext 2) [(''sample'', [''a'', ''b'', ''c''])]
          [(([sample_pattern], 0), 0)] (Suc 0) expansion_state) = (Some 4, [(([sample_pattern], 0), 0)])"
  by code_simp

lemma two_graph:
  "depends (heap (snd (handle_dynamic_input (expansion_ext 2) [(''sample'', [''a'', ''b'', ''c''])]
      [(([sample_pattern], 0), 0)] (Suc 0) expansion_state)) 4) = [2, 3]"
  "depends (heap (snd (handle_dynamic_input (expansion_ext 2) [(''sample'', [''a'', ''b'', ''c''])]
      [(([sample_pattern], 0), 0)] (Suc 0) expansion_state)) 3) = []"
  "depends (heap (snd (handle_dynamic_input (expansion_ext 2) [(''sample'', [''a'', ''b'', ''c''])]
      [(([sample_pattern], 0), 0)] (Suc 0) expansion_state)) 2) = []"
  "scheduler (heap (snd (handle_dynamic_input (expansion_ext 2) [(''sample'', [''a'', ''b'', ''c''])]
      [(([sample_pattern], 0), 0)] (Suc 0) expansion_state)) 0) = Some Knapsack"
  by code_simp+

lemma expansion_state_facts:
  "collect_wildcards (expansion_ext m) (fs expansion_state) (job_rule expansion_state 0) 0
      (outputs (heap expansion_state 0)) [] = Inr [(''sample'', [''a'', ''b'', ''c''])]"
  "depending (heap expansion_state 0) = [Suc 0]" "depending (heap expansion_state (Suc 0)) = []"
  "outputs (heap expansion_state 0) = [sample_pattern]" "rule (heap expansion_state 0) = 0"
  "logged expansion_state = []" "jobcounter_count expansion_state = 2"
  "recursion_limit (expansion_ext m) = 1000"
  by (simp_all add: expansion_ext_def plain_ext_def expansion_state_def empty_state_def job_rule_def
        is_dynamic_def sample_pattern_def example_rule_def py_get_def add_wildcards_def add_value_def
        set_add_def default_job_def)

lemma two_loop:
  "ancestors_loop (Suc 0) (expansion_ext 2) [(''sample'', [''a'', ''b'', ''c''])] [(([sample_pattern], 0), 0)]
      [Suc 0] [Suc 0] [] 0 expansion_state
   = (Return ([4, 2, 3], 1),
      snd (handle_dynamic_input (expansion_ext 2) [(''sample'', [''a'', ''b'', ''c''])]
             [(([sample_pattern], 0), 0)] (Suc 0) expansion_state))"
proof -
  let ?h = "handle_dynamic_input (expansion_ext 2) [(''sample'', [''a'', ''b'', ''c''])]
             [(([sample_pattern], 0), 0)] (Suc 0) expansion_state"
  have h: "?h = ((Some 4, [(([sample_pattern], 0), 0)]), snd ?h)"
    using two_hdi by (metis prod.collapse)
  have d2: "descendants 999 (heap (snd ?h)) 2 = Some []"
    by (subst descendants_unfold) (simp_all add: two_graph)
  have d3: "descendants 999 (heap (snd ?h)) 3 = Some []"
    by (subst descendants_unfold) (simp_all add: two_graph)
  have d4: "descendants 1000 (heap (snd ?h)) 4 = Some [2, 3]"
    by (subst descendants_unfold) (simp_all add: two_graph d2 d3)
  have aj: "all_jobs (recursion_limit (expansion_ext 2)) (heap (snd ?h)) 4 = Some [4, 2, 3]"
    by (simp add: all_jobs_def expansion_state_facts d4)
  show ?thesis
    using single_ancestor_loop[OF expansion_state_facts(3) h aj, of 0]
    by (simp add: set_update_def set_add_def)
qed

lemma two_loop':
  "ancestors_loop 1 (expansion_ext 2) [(''sample'', [''a'', ''b'', ''c''])]
      [((outputs (heap expansion_state 0), rule (heap expansion_state 0)), 0)]
      (depending (heap expansion_state 0)) (remdups (depending (heap expansion_state 0))) [] 0 expansion_state
   = (Return ([4, 2, 3], 1),
      snd (handle_dynamic_input (expansion_ext 2) [(''sample'', [''a'', ''b'', ''c''])]
             [(([sample_pattern], 0), 0)] (Suc 0) expansion_state))"
  by (simp add: expansion_state_facts two_loop del: ancestors_loop.simps)

lemma two_returns: "fst (handle_dynamic_output 1 (expansion_ext 2) 0 expansion_state) = Return ()"
  by (rule hdo_returns[OF expansion_state_facts(1) two_loop' _ two_graph(4)]) simp

text \<open>
  C8, as the code has it. When \<open>handle_dynamic_output\<close> returns, let \<open>new_jobs\<close> be the set
  the traversal of the ancestors collected, without the job itself, and \<open>dyn\<close> the number of
  ancestors that were expanded. Every job of \<open>new_jobs\<close> is attached to the scheduler
  \<open>self.scheduler\<close> of the job on which the method was called (it carries that scheduler and
  is in its pending set), the job counter has grown by exactly \<open>len(new_jobs) - dyn\<close>, and the warning
  \<open>Dynamically adding n new jobs\<close> with that number is logged if and only if the number is
  not zero.
\<close>

theorem handle_dynamic_output_accounting:
  assumes "handle_dynamic_output fuel ext self s = (Return (), s')"
  shows "\<exists>w new_jobs dyn s1 sch.
           collect_wildcards ext (fs s) (job_rule s self) 0 (outputs (heap s self)) [] = Inr w
         \<and> ancestors_loop fuel ext w [((outputs (heap s self), rule (heap s self)), self)]
              (depending (heap s self)) (remdups (depending (heap s self))) [] 0 s
             = (Return (new_jobs, dyn), s1)
         \<and> distinct (removeAll self new_jobs)
         \<and> jobcounter_count s' = jobcounter_count s + (int (length (removeAll self new_jobs)) - dyn)
         \<and> logged s' = logged s @
              (if int (length (removeAll self new_jobs)) - dyn = 0 then []
               else [Warning (''Dynamically adding '' @ str_int (int (length (removeAll self new_jobs)) - dyn)
                              @ '' new jobs'')])
         \<and> scheduler (heap s' self) = Some sch
         \<and> (self < job_count s \<longrightarrow> scheduler (heap s self) = Some sch)
         \<and> (\<forall>j \<in> set (removeAll self new_jobs). attached sch j s')"
  using assms by (rule hdo_accounting)

text \<open>
  The scenario of the spec: the ancestor is replaced by three fresh jobs, the counter grows by
  \<open>3 - 1\<close> and the warning reports two new jobs.
\<close>

theorem handle_dynamic_output_accounting_witness:
  "fst (handle_dynamic_output 1 (expansion_ext 2) 0 expansion_state) = Return ()
   \<and> jobcounter_count (snd (handle_dynamic_output 1 (expansion_ext 2) 0 expansion_state))
       = jobcounter_count expansion_state + (3 - 1)
   \<and> logged (snd (handle_dynamic_output 1 (expansion_ext 2) 0 expansion_state))
       = [Warning ''Dynamically adding 2 new jobs'']
   \<and> scheduler (heap expansion_state 0) = Some Knapsack
   \<and> attached Knapsack 4 (snd (handle_dynamic_output 1 (expansion_ext 2) 0 expansion_state))
   \<and> attached Knapsack 2 (snd (handle_dynamic_output 1 (expansion_ext 2) 0 expansion_state))
   \<and> attached Knapsack 3 (snd (handle_dynamic_output 1 (expansion_ext 2) 0 expansion_state))"
proof -
  let ?s' = "snd (handle_dynamic_output 1 (expansion_ext 2) 0 expansion_state)"
  have r: "handle_dynamic_output 1 (expansion_ext 2) 0 expansion_state = (Return (), ?s')"
    using two_returns by (metis prod.collapse)
  from handle_dynamic_output_accounting [OF r] obtain w new_jobs dyn s1 sch where
    w: "collect_wildcards (expansion_ext 2) (fs expansion_state) (job_rule expansion_state 0) 0
           (outputs (heap expansion_state 0)) [] = Inr w"
    and l: "ancestors_loop 1 (expansion_ext 2) w [((outputs (heap expansion_state 0), rule (heap expansion_state 0)), 0)]
              (depending (heap expansion_state 0)) (remdups (depending (heap expansion_state 0))) [] 0 expansion_state
             = (Return (new_jobs, dyn), s1)"
    and c: "jobcounter_count ?s' = jobcounter_count expansion_state + (int (length (removeAll 0 new_jobs)) - dyn)"
    and lg: "logged ?s' = logged expansion_state @
              (if int (length (removeAll 0 new_jobs)) - dyn = 0 then []
               else [Warning (''Dynamically adding '' @ str_int (int (length (removeAll 0 new_jobs)) - dyn)
                              @ '' new jobs'')])"
    and own': "scheduler (heap ?s' 0) = Some sch"
    and own: "0 < job_count expansion_state \<longrightarrow> scheduler (heap expansion_state 0) = Some sch"
    and at: "\<forall>j \<in> set (removeAll 0 new_jobs). attached sch j ?s'"
    by (elim exE conjE) (rule that)
  have w': "w = [(''sample'', [''a'', ''b'', ''c''])]"
    using w [unfolded expansion_state_facts(1)] by simp
  have nj: "new_jobs = [4, 2, 3]" "dyn = 1"
    using l unfolding w' two_loop' by simp_all
  have s2: "str_int 2 = ''2''" by code_simp
  have k: "scheduler (heap expansion_state 0) = Some Knapsack" "0 < job_count expansion_state"
    by (simp_all add: expansion_state_def empty_state_def default_job_def)
  have sch: "sch = Knapsack" using own k by simp
  show ?thesis
    using two_returns c lg at k(1) by (auto simp: nj expansion_state_facts s2 sch)
qed


text \<open>
  When the ancestor is replaced by a single job the net addition is zero: the job is attached,
  and nothing is logged.
\<close>

lemma zero_hdi:
  "fst (handle_dynamic_input (expansion_ext 0) [(''sample'', [''a'', ''b'', ''c''])]
          [(([sample_pattern], 0), 0)] (Suc 0) expansion_state) = (Some 2, [(([sample_pattern], 0), 0)])"
  by code_simp

lemma zero_graph:
  "depends (heap (snd (handle_dynamic_input (expansion_ext 0) [(''sample'', [''a'', ''b'', ''c''])]
      [(([sample_pattern], 0), 0)] (Suc 0) expansion_state)) 2) = []"
  "scheduler (heap (snd (handle_dynamic_input (expansion_ext 0) [(''sample'', [''a'', ''b'', ''c''])]
      [(([sample_pattern], 0), 0)] (Suc 0) expansion_state)) 0) = Some Knapsack"
  by code_simp+

lemma zero_loop:
  "ancestors_loop 1 (expansion_ext 0) [(''sample'', [''a'', ''b'', ''c''])]
      [((outputs (heap expansion_state 0), rule (heap expansion_state 0)), 0)]
      (depending (heap expansion_state 0)) (remdups (depending (heap expansion_state 0))) [] 0 expansion_state
   = (Return ([2], 1),
      snd (handle_dynamic_input (expansion_ext 0) [(''sample'', [''a'', ''b'', ''c''])]
             [(([sample_pattern], 0), 0)] (Suc 0) expansion_state))"
proof -
  let ?h = "handle_dynamic_input (expansion_ext 0) [(''sample'', [''a'', ''b'', ''c''])]
             [(([sample_pattern], 0), 0)] (Suc 0) expansion_state"
  have h: "?h = ((Some 2, [(([sample_pattern], 0), 0)]), snd ?h)"
    using zero_hdi by (metis prod.collapse)
  have d2: "descendants 1000 (heap (snd ?h)) 2 = Some []"
    by (subst descendants_unfold) (simp_all add: zero_graph)
  have aj: "all_jobs (recursion_limit (expansion_ext 0)) (heap (snd ?h)) 2 = Some [2]"
    by (simp add: all_jobs_def expansion_state_facts d2)
  have "ancestors_loop (Suc 0) (expansion_ext 0) [(''sample'', [''a'', ''b'', ''c''])]
          [(([sample_pattern], 0), 0)] [Suc 0] [Suc 0] [] 0 expansion_state = (Return ([2], 1), snd ?h)"
    using single_ancestor_loop[OF expansion_state_facts(3) h aj, of 0]
    by (simp add: set_update_def set_add_def)
  then show ?thesis
    by (simp add: expansion_state_facts del: ancestors_loop.simps)
qed

theorem handle_dynamic_output_no_warning_counterexample:
  "fst (handle_dynamic_output 1 (expansion_ext 0) 0 expansion_state) = Return ()
   \<and> fst (ancestors_loop 1 (expansion_ext 0) [(''sample'', [''a'', ''b'', ''c''])]
            [((outputs (heap expansion_state 0), rule (heap expansion_state 0)), 0)]
            (depending (heap expansion_state 0)) (remdups (depending (heap expansion_state 0))) [] 0
            expansion_state) = Return ([2], 1)
   \<and> logged (snd (handle_dynamic_output 1 (expansion_ext 0) 0 expansion_state)) = []"
proof -
  let ?s' = "snd (handle_dynamic_output 1 (expansion_ext 0) 0 expansion_state)"
  have ret: "fst (handle_dynamic_output 1 (expansion_ext 0) 0 expansion_state) = Return ()"
    by (rule hdo_returns[OF expansion_state_facts(1) zero_loop _ zero_graph(2)]) simp
  then have r: "handle_dynamic_output 1 (expansion_ext 0) 0 expansion_state = (Return (), ?s')"
    by (metis prod.collapse)
  from hdo_accounting[OF r] obtain w new_jobs dyn s1 where
    w: "collect_wildcards (expansion_ext 0) (fs expansion_state) (job_rule expansion_state 0) 0
           (outputs (heap expansion_state 0)) [] = Inr w"
    and l: "ancestors_loop 1 (expansion_ext 0) w [((outputs (heap expansion_state 0), rule (heap expansion_state 0)), 0)]
              (depending (heap expansion_state 0)) (remdups (depending (heap expansion_state 0))) [] 0 expansion_state
             = (Return (new_jobs, dyn), s1)"
    and lg: "logged ?s' = logged expansion_state @
              (if int (length (removeAll 0 new_jobs)) - dyn = 0 then []
               else [Warning (''Dynamically adding '' @ str_int (int (length (removeAll 0 new_jobs)) - dyn)
                              @ '' new jobs'')])"
    by blast
  have w': "w = [(''sample'', [''a'', ''b'', ''c''])]"
    using w [unfolded expansion_state_facts(1)] by simp
  have nj: "new_jobs = [2]" "dyn = 1"
    using l unfolding w' zero_loop by simp_all
  have lg': "logged ?s' = []"
    using lg by (simp add: nj expansion_state_facts)
  have lp: "fst (ancestors_loop 1 (expansion_ext 0) [(''sample'', [''a'', ''b'', ''c''])]
            [((outputs (heap expansion_state 0), rule (heap expansion_state 0)), 0)]
            (depending (heap expansion_state 0)) (remdups (depending (heap expansion_state 0))) [] 0
            expansion_state) = Return ([2], 1)"
    unfolding zero_loop by simp
  show ?thesis
    using ret lp lg' by blast
qed

subsection \<open>Callbacks fired by \<open>finished\<close>\<close>

lemma add_job_heap:
  "heap (add_job sch j s) = (heap s)(j := (heap s j)\<lparr>scheduler := Some sch\<rparr>)"
  by (cases sch) (simp_all add: add_job_def update_job_def Let_def)

lemma add_job_job_fields [simp]:
  "callbacks (heap (add_job sch j s) k) = callbacks (heap s k)"
  "error_callbacks (heap (add_job sch j s) k) = error_callbacks (heap s k)"
  "depends (heap (add_job sch j s) k) = depends (heap s k)"
  "depending (heap (add_job sch j s) k) = depending (heap s k)"
  "needrun (heap (add_job sch j s) k) = needrun (heap s k)"
  "threads (heap (add_job sch j s) k) = threads (heap s k)"
  "is_finished (heap (add_job sch j s) k) = is_finished (heap s k)"
  "ignore (heap (add_job sch j s) k) = ignore (heap s k)"
  "pseudo (heap (add_job sch j s) k) = pseudo (heap s k)"
  by (simp_all add: add_job_heap)

lemma add_jobs_job_fields [simp]:
  "callbacks (heap (add_jobs sch js s) k) = callbacks (heap s k)"
  "error_callbacks (heap (add_jobs sch js s) k) = error_callbacks (heap s k)"
  "depends (heap (add_jobs sch js s) k) = depends (heap s k)"
  "depending (heap (add_jobs sch js s) k) = depending (heap s k)"
  "needrun (heap (add_jobs sch js s) k) = needrun (heap s k)"
  "threads (heap (add_jobs sch js s) k) = threads (heap s k)"
  "is_finished (heap (add_jobs sch js s) k) = is_finished (heap s k)"
  "ignore (heap (add_jobs sch js s) k) = ignore (heap s k)"
  "pseudo (heap (add_jobs sch js s) k) = pseudo (heap s k)"
  unfolding add_jobs_def by (induction js arbitrary: s; simp)+

lemma hdo_shape:
  assumes "handle_dynamic_output fuel ext self s = (r, s')"
  shows "\<exists>s2 L sch js c. grows s s2
           \<and> (s' = s2\<lparr>logged := L\<rparr> \<or> s' = (add_jobs sch js (s2\<lparr>logged := L\<rparr>))\<lparr>jobcounter_count := c\<rparr>)"
proof (cases "collect_wildcards ext (fs s) (job_rule s self) 0 (outputs (heap s self)) []")
  case (Inl e)
  with assms have "s' = s\<lparr>logged := logged s\<rparr>" by (simp add: handle_dynamic_output_def)
  then show ?thesis using grows_refl by blast
next
  case (Inr w)
  let ?loop = "ancestors_loop fuel ext w [((outputs (heap s self), rule (heap s self)), self)]
              (depending (heap s self)) (remdups (depending (heap s self))) [] 0 s"
  obtain r1 s1 where l: "?loop = (r1, s1)" by (cases ?loop)
  have g1: "grows s s1" by (rule grows_ancestors_loop[OF l])
  show ?thesis
  proof (cases r1)
    case (Return res)
    obtain new_jobs dyn where res: "res = (new_jobs, dyn)" by (cases res)
    define added where "added = removeAll self new_jobs"
    define n where "n = int (length added) - dyn"
    define s2 where "s2 = (if self \<in> set new_jobs
        then snd (foreach (depending (heap s1 self)) (discard_depends self) s1) else s1)"
    define s3 where "s3 = (if n \<noteq> 0
        then logger (Warning (''Dynamically adding '' @ str_int n @ '' new jobs'')) s2 else s2)"
    have g: "grows s s2" unfolding s2_def using grows_trans[OF g1 grows_discard] g1 by simp
    have "\<exists>L. s3 = s2\<lparr>logged := L\<rparr>"
    proof (cases "n \<noteq> 0")
      case True
      then show ?thesis unfolding s3_def by (auto simp: logger_def)
    next
      case False
      then have "s3 = s2\<lparr>logged := logged s2\<rparr>" unfolding s3_def by simp
      then show ?thesis by blast
    qed
    then obtain L where L: "s3 = s2\<lparr>logged := L\<rparr>" by blast
    have "s' = s3 \<or> (\<exists>sch. s' = (add_jobs sch added s3)\<lparr>jobcounter_count := jobcounter_count (add_jobs sch added s3) + n\<rparr>)"
      using assms Inr l Return res unfolding s3_def s2_def n_def added_def
      by (auto simp: handle_dynamic_output_def Let_def split: option.splits if_splits)
    then show ?thesis unfolding L using g by blast
  next
    case (Raise e)
    with assms Inr l have "s' = s1\<lparr>logged := logged s1\<rparr>" by (simp add: handle_dynamic_output_def)
    then show ?thesis using g1 by blast
  next
    case Diverge
    with assms Inr l have "s' = s1\<lparr>logged := logged s1\<rparr>" by (simp add: handle_dynamic_output_def)
    then show ?thesis using g1 by blast
  qed
qed

lemma hdo_frame:
  assumes "handle_dynamic_output fuel ext self s = (r, s')"
  shows "job_count s \<le> job_count s'" "fired s' = fired s" "fs s' = fs s"
    "\<And>k. k < job_count s \<Longrightarrow> callbacks (heap s' k) = callbacks (heap s k)"
    "\<And>k. k < job_count s \<Longrightarrow> set (depends (heap s' k)) \<subseteq> set (depends (heap s k))"
proof -
  from hdo_shape[OF assms] obtain s2 L sch js c where g: "grows s s2"
    and s': "s' = s2\<lparr>logged := L\<rparr> \<or> s' = (add_jobs sch js (s2\<lparr>logged := L\<rparr>))\<lparr>jobcounter_count := c\<rparr>"
    by blast
  show "job_count s \<le> job_count s'" using g s' by (auto simp: grows_def)
  show "fired s' = fired s" using grows_fields(2)[OF g] s' by auto
  show "fs s' = fs s" using grows_fields(1)[OF g] s' by auto
  show "callbacks (heap s' k) = callbacks (heap s k)" if "k < job_count s" for k
  proof -
    have "same_core (heap s k) (heap s2 k)" using g that by (simp add: grows_def)
    then have "callbacks (heap s2 k) = callbacks (heap s k)" by (rule same_core_fields)
    then show ?thesis using s' by auto
  qed
  show "set (depends (heap s' k)) \<subseteq> set (depends (heap s k))" if "k < job_count s" for k
  proof -
    have "set (depends (heap s2 k)) \<subseteq> set (depends (heap s k))" using g that by (simp add: grows_def)
    then show ?thesis using s' by auto
  qed
qed

lemma foreach_callbacks:
  "foreach cbs (call_callback j) s = (r, s') \<Longrightarrow>
     r = Return () \<and> heap s' = heap s \<and> job_count s' = job_count s \<and> fs s' = fs s
     \<and> fired s' = fired s @ map (\<lambda>cb. Fired cb j) cbs"
  by (induction cbs arbitrary: s)
     (auto simp: call_callback_def knapsack_finished_def cluster_finished_def Let_def split: callback.splits)

lemma fs_op_frame: "fs_op opn s = (r, s') \<Longrightarrow> s' = s\<lparr>fs := fs s'\<rparr>"
  by (auto simp: fs_op_def split: prod.splits option.splits)

lemma only_fs_refl: "only_fs s s" by (simp add: only_fs_def)

lemma only_fs_trans: "only_fs s s1 \<Longrightarrow> only_fs s1 s2 \<Longrightarrow> only_fs s s2"
  unfolding only_fs_def by (cases s; cases s1; cases s2; simp)

lemma check_produced_frame: "check_produced ext fut j s = (r, s') \<Longrightarrow> only_fs s s'"
proof -
  assume a: "check_produced ext fut j s = (r, s')"
  let ?f1 = "\<lambda>out s1. if \<not> is_dynamic (job_rule s1 j) out
                               then fs_op (iofile_created ext out) s1 else (Return (), s1)"
  obtain r1 s1 where 1: "foreach (outputs (heap s j)) ?f1 s = (r1, s1)"
    by (cases "foreach (outputs (heap s j)) ?f1 s")
  have o1: "only_fs s s1"
    by (rule foreach_rel[where R=only_fs, OF _ _ _ 1])
       (auto simp: only_fs_refl only_fs_def intro: only_fs_trans[unfolded only_fs_def] dest: fs_op_frame split: if_splits)
  obtain r2 s2 where 2: "foreach (input (heap s1 j)) (\<lambda>f. fs_op (iofile_used ext f)) s1 = (r2, s2)"
    by (cases "foreach (input (heap s1 j)) (\<lambda>f. fs_op (iofile_used ext f)) s1")
  have o2: "only_fs s1 s2"
    by (rule foreach_rel[where R=only_fs, OF _ _ _ 2])
       (auto simp: only_fs_refl only_fs_def intro: only_fs_trans[unfolded only_fs_def] dest: fs_op_frame)
  show ?thesis
    using a 1 2 o1 only_fs_trans[OF o1 o2]
    by (auto simp: check_produced_def only_fs_refl split: option.splits if_splits outcome.splits)
qed

lemma only_fs_fields:
  assumes "only_fs s s'"
  shows "heap s' = heap s" "fired s' = fired s" "job_count s' = job_count s" "ksched s' = ksched s"
    "logged s' = logged s"
  using assms unfolding only_fs_def by (cases s; cases s'; simp)+

lemma count_done_fields [simp]:
  "heap (count_done fut j s) = heap s" "fired (count_done fut j s) = fired s"
  "job_count (count_done fut j s) = job_count s" "ksched (count_done fut j s) = ksched s"
  "fs (count_done fut j s) = fs s"
  by (simp_all add: count_done_def Let_def logger_def split: option.splits)

lemma detach_loop_grows:
  "foreach js (remove_depends j) s = (r, s') \<Longrightarrow> grows s s'"
  by (rule foreach_rel[where R=grows]) (auto intro: grows_trans grows_remove_depends)

lemma foreach_error_callbacks_count:
  "foreach cbs (call_error_callback j) s = (r, s') \<Longrightarrow> job_count s' = job_count s"
  by (induction cbs arbitrary: s)
     (auto simp: call_error_callback_def knapsack_error_def Let_def split: error_callback.splits)

lemma detach_fired:
  assumes "detach fuel ext j s = (Return (), s')" "j < job_count s"
  shows "fired s' = fired s @ map (\<lambda>cb. Fired cb j) (callbacks (heap s j))
         \<and> callbacks (heap s' j) = callbacks (heap s j) \<and> job_count s \<le> job_count s'"
proof -
  obtain r1 s1 where 1: "foreach (depending (heap s j)) (remove_depends j) s = (r1, s1)"
    by (cases "foreach (depending (heap s j)) (remove_depends j) s")
  have g: "grows s s1" by (rule detach_loop_grows[OF 1])
  have r1: "r1 = Return ()" using assms(1) 1 by (auto simp: detach_def split: outcome.splits)
  have c1: "callbacks (heap s1 j) = callbacks (heap s j)" "fired s1 = fired s" "job_count s \<le> job_count s1"
    using g assms(2) same_core_fields(1) grows_fields(2) by (auto simp: grows_def)
  show ?thesis
  proof (cases "\<not> dryrun (heap s1 j) \<and> dynamic_output (heap s1 j)")
    case True
    obtain r2 s2 where 2: "handle_dynamic_output fuel ext j s1 = (r2, s2)"
      by (cases "handle_dynamic_output fuel ext j s1")
    have f: "fire_callbacks j s2 = (Return (), s')"
      using assms(1) 1 r1 True 2 by (auto simp: detach_def split: outcome.splits)
    have "callbacks (heap s2 j) = callbacks (heap s j)" "fired s2 = fired s" "job_count s \<le> job_count s2"
      using hdo_frame(1,2,4)[OF 2] c1 assms(2) by auto
    then show ?thesis using foreach_callbacks[OF f[unfolded fire_callbacks_def]] by simp
  next
    case False
    then have f: "fire_callbacks j s1 = (Return (), s')"
      using assms(1) 1 r1 by (auto simp: detach_def)
    show ?thesis using foreach_callbacks[OF f[unfolded fire_callbacks_def]] c1 by simp
  qed
qed

text \<open>
  C4, as the code has it. Each call of \<open>finished\<close> that returns fires every registered
  completion callback once, in the order of registration, unless it took the error path, where
  it fires every error callback once and no completion callback. The call leaves the
  completion callbacks registered: \<open>finished\<close> has no guard against a second call, and a
  further call that returns fires them again. \<open>produced_ok\<close> says that the \<open>try\<close> statement
  was not entered or did not raise.
\<close>

theorem finished_fires_per_call:
  assumes "finished fuel ext fut j s = (Return (), s')" "j < job_count s"
  shows "fired s' = fired s @
           (if produced_ok ext fut j s then map (\<lambda>cb. Fired cb j) (callbacks (heap s j))
            else map (\<lambda>cb. FiredError cb j) (error_callbacks (heap s j)))
         \<and> callbacks (heap s' j) = callbacks (heap s j) \<and> j < job_count s'"
proof -
  define s0 where "s0 = update_job j (\<lambda>a. a\<lparr>is_finished := True\<rparr>) s"
  have s0: "callbacks (heap s0 j) = callbacks (heap s j)" "error_callbacks (heap s0 j) = error_callbacks (heap s j)"
    "fired s0 = fired s" "job_count s0 = job_count s" "is_finished (heap s0 j)"
    "ignore (heap s0 j) = ignore (heap s j)" "needrun (heap s0 j) = needrun (heap s j)"
    "pseudo (heap s0 j) = pseudo (heap s j)"
    by (simp_all add: s0_def update_job_def)
  show ?thesis
  proof (cases "ignore (heap s0 j)")
    case True
    then have "fire_callbacks j s0 = (Return (), s')"
      using assms(1) by (simp add: finished_def s0_def Let_def)
    from foreach_callbacks[OF this[unfolded fire_callbacks_def]] True assms(2) show ?thesis
      by (simp add: s0 produced_ok_def)
  next
    case False
    show ?thesis
    proof (cases "needrun (heap s0 j) \<and> \<not> pseudo (heap s0 j)")
      case nr: True
      obtain r1 s1 where 1: "check_produced ext fut j s0 = (r1, s1)"
        by (cases "check_produced ext fut j s0")
      note o = only_fs_fields[OF check_produced_frame[OF 1]]
      show ?thesis
      proof (cases r1)
        case (Return u)
        then have ok: "produced_ok ext fut j s"
          using 1 by (simp add: produced_ok_def s0_def[symmetric])
        have "detach fuel ext j (count_done fut j s1) = (Return (), s')"
          using Return assms(1) False nr 1 by (simp add: finished_def s0_def[symmetric] Let_def)
        from detach_fired[OF this] show ?thesis using assms(2) ok by (simp add: o s0)
      next
        case (Raise ex)
        then have nok: "\<not> produced_ok ext fut j s"
          using 1 False nr by (simp add: produced_ok_def s0_def[symmetric] s0)
        have e: "on_error ext ex j s1 = (Return (), s')"
          using Raise assms(1) False nr 1 by (simp add: finished_def s0_def[symmetric] Let_def)
        have "is_finished (heap (logger (PrintException ex) s1) j)"
          by (simp add: logger_def o s0)
        then have l: "foreach (error_callbacks (heap s1 j)) (call_error_callback j) (logger (PrintException ex) s1) = (Return (), s')"
          using e by (simp add: on_error_def cleanup_def logger_def)
        from foreach_error_callbacks[OF l] foreach_error_callbacks_count[OF l] assms(2)
        show ?thesis using nok by (simp add: logger_def o s0)
      next
        case Diverge
        then show ?thesis using assms(1) False nr 1 by (simp add: finished_def s0_def[symmetric] Let_def)
      qed
    next
      case nr: False
      then have ok: "produced_ok ext fut j s" by (auto simp: produced_ok_def s0)
      have "detach fuel ext j s0 = (Return (), s')"
        using nr assms(1) False by (auto simp add: finished_def s0_def[symmetric] Let_def)
      from detach_fired[OF this] show ?thesis using assms(2) ok by (simp add: s0)
    qed
  qed
qed

theorem finished_fires_per_call_witness:
  "fst (finished 0 plain_ext None 0 norun_job_state) = Return () \<and> 0 < job_count norun_job_state
   \<and> produced_ok plain_ext None 0 norun_job_state
   \<and> fired (snd (finished 0 plain_ext None 0 norun_job_state)) = [Fired KnapsackFinished 0]
   \<and> callbacks (heap (snd (finished 0 plain_ext None 0 norun_job_state)) 0) = [KnapsackFinished]
   \<and> 0 < job_count (snd (finished 0 plain_ext None 0 norun_job_state))"
proof -
  have r: "fst (finished 0 plain_ext None 0 norun_job_state) = Return ()"
    by (simp add: finished_def norun_job_state_def update_job_def one_job_state_def empty_state_def default_job_def detach_def
     fire_callbacks_def call_callback_def knapsack_finished_def Let_def)
  then have e: "finished 0 plain_ext None 0 norun_job_state = (Return (), snd (finished 0 plain_ext None 0 norun_job_state))"
    by (metis prod.collapse)
  have f: "0 < job_count norun_job_state" "produced_ok plain_ext None 0 norun_job_state"
    "fired norun_job_state = []" "callbacks (heap norun_job_state 0) = [KnapsackFinished]"
    by (simp_all add: produced_ok_def norun_job_state_def update_job_def one_job_state_def empty_state_def default_job_def)
  from finished_fires_per_call [OF e f(1)] r f show ?thesis by simp
qed

text \<open>
  Two calls of \<open>finished\<close> on the same job, which has no dependents: both return and the
  completion callback has fired twice.
\<close>

theorem finished_twice_fires_twice_counterexample:
  "depending (heap norun_job_state 0) = [] \<and> callbacks (heap norun_job_state 0) = [KnapsackFinished]
   \<and> fired norun_job_state = []
   \<and> fst (finished 0 plain_ext None 0 norun_job_state) = Return ()
   \<and> fst (finished 0 plain_ext None 0 (snd (finished 0 plain_ext None 0 norun_job_state))) = Return ()
   \<and> fired (snd (finished 0 plain_ext None 0 (snd (finished 0 plain_ext None 0 norun_job_state))))
       = [Fired KnapsackFinished 0, Fired KnapsackFinished 0]"
  by (simp add: finished_def norun_job_state_def update_job_def one_job_state_def empty_state_def default_job_def detach_def
     fire_callbacks_def call_callback_def knapsack_finished_def Let_def)

subsection \<open>The knapsack selection\<close>

lemma foreach_upt_inv:
  assumes step: "\<And>k s. a0 \<le> k \<Longrightarrow> k < b \<Longrightarrow> I k s \<Longrightarrow> \<exists>s'. f k s = (Return (), s') \<and> I (Suc k) s'"
  shows "a0 \<le> a \<Longrightarrow> a \<le> b \<Longrightarrow> I a s \<Longrightarrow> \<exists>s'. foreach [a..<b] f s = (Return (), s') \<and> I b s'"
proof (induction "b - a" arbitrary: a s)
  case 0
  then show ?case by simp
next
  case (Suc d)
  then have ab: "a < b" by simp
  from step[OF Suc.prems(1) ab Suc.prems(3)] obtain s1 where 1: "f a s = (Return (), s1)" "I (Suc a) s1"
    by blast
  have "d = b - Suc a" using Suc.hyps(2) by simp
  from Suc.hyps(1)[OF this _ _ 1(2)] Suc.prems(1) ab
  obtain s' where "foreach [Suc a..<b] f s1 = (Return (), s')" "I b s'" by auto
  then show ?case using 1(1) ab by (simp add: upt_conv_Cons)
qed

lemma kval_col0:
  "\<forall>j\<in>set jobs. 0 < threads (h j) \<Longrightarrow> i \<le> length jobs \<Longrightarrow> kval h jobs i 0 = 0"
  by (induction i) (auto simp: Let_def)

lemma kval_le: "0 \<le> c \<Longrightarrow> kval h jobs i c \<le> c"
proof (induction i arbitrary: c)
  case 0
  then show ?case by simp
next
  case (Suc i)
  have 1: "kval h jobs i c \<le> c" using Suc by simp
  show ?case
  proof (cases "threads (h (jobs ! i)) > c")
    case True
    then show ?thesis using 1 by (simp add: Let_def)
  next
    case False
    then have "kval h jobs i (c - threads (h (jobs ! i))) \<le> c - threads (h (jobs ! i))"
      using Suc.IH[of "c - threads (h (jobs ! i))"] by simp
    then show ?thesis using 1 False by (simp add: Let_def)
  qed
qed

lemma fill_cell_ok:
  assumes pos: "\<forall>j\<in>set jobs. 0 < threads (h j)"
    and i: "1 \<le> i" "i \<le> length jobs" and j: "1 \<le> j" "j < C"
    and inv: "table_cells h jobs C i j K"
  shows "\<exists>K'. fill_cell h jobs i j K = (Return (), K') \<and> table_cells h jobs C i (Suc j) K'"
proof -
  obtain i' where i': "i = Suc i'" using i(1) by (cases i) auto
  let ?t = "threads (h (jobs ! i'))"
  have tpos: "0 < ?t" using pos i i' by simp
  have rows: "length K = length jobs + 1" "\<forall>r \<le> length jobs. length (K ! r) = C \<and> K ! r ! 0 = 0"
    "\<forall>r < i. \<forall>q < C. K ! r ! q = kval h jobs r (int q)"
    and cells: "\<forall>q < j. K ! i ! q = kval h jobs i (int q)"
    using inv by (auto simp: table_cells_def table_rows_def)
  have prev: "\<And>q. q < C \<Longrightarrow> K ! i' ! q = kval h jobs i' (int q)"
    using rows(3) i' by simp
  have len: "length (K ! i) = C" "length (K ! i') = C" "i < length K" "i' < length K"
    using rows i i' by auto
  define v where "v = kval h jobs i (int j)"
  have upd: "table_cells h jobs C i (Suc j) (K[i := (K ! i)[j := v]])"
  proof -
    let ?K' = "K[i := (K ! i)[j := v]]"
    have a: "length ?K' = length jobs + 1" using rows by simp
    have b: "\<forall>r \<le> length jobs. length (?K' ! r) = C \<and> ?K' ! r ! 0 = 0"
      using rows len j by (auto simp: nth_list_update)
    have c: "\<forall>r < i. \<forall>q < C. ?K' ! r ! q = kval h jobs r (int q)"
      using rows(3) by (auto simp: nth_list_update)
    have d: "\<forall>q < Suc j. ?K' ! i ! q = kval h jobs i (int q)"
      using cells len j by (auto simp: nth_list_update v_def less_Suc_eq)
    show ?thesis unfolding table_cells_def table_rows_def using a b c d by blast
  qed
  show ?thesis
  proof (cases "?t > int j")
    case True
    then have "v = K ! i' ! j" using prev[OF j(2)] by (simp add: v_def i' Let_def)
    then have "fill_cell h jobs i j K = (Return (), K[i := (K ! i)[j := v]])"
      using True by (simp add: fill_cell_def i' Let_def)
    then show ?thesis using upd by blast
  next
    case False
    then have q: "0 \<le> int j - ?t" "int j - ?t < int C" "nat (int j - ?t) < C"
      using tpos j by auto
    have g: "py_get (K ! i') (int j - ?t) = Inr (kval h jobs i' (int j - ?t))"
      using q prev[OF q(3)] len by (simp add: py_get_def Let_def)
    have "v = max (K ! i' ! j) (?t + kval h jobs i' (int j - ?t))"
      using False prev[OF j(2)] by (simp add: v_def i' Let_def)
    then have "fill_cell h jobs i j K = (Return (), K[i := (K ! i)[j := v]])"
      using False g by (simp add: fill_cell_def i' Let_def)
    then show ?thesis using upd by blast
  qed
qed

lemma fill_row_ok:
  assumes pos: "\<forall>j\<in>set jobs. 0 < threads (h j)"
    and i: "1 \<le> i" "i \<le> length jobs" and C: "1 \<le> C"
    and inv: "table_rows h jobs C i K"
  shows "\<exists>K'. foreach [1..<C] (\<lambda>j. fill_cell h jobs i j) K = (Return (), K') \<and> table_rows h jobs C (Suc i) K'"
proof -
  have start: "table_cells h jobs C i 1 K"
    using inv i kval_col0[OF pos i(2)] by (auto simp: table_cells_def table_rows_def)
  have "\<exists>K'. foreach [1..<C] (\<lambda>j. fill_cell h jobs i j) K = (Return (), K') \<and> table_cells h jobs C i C K'"
    by (rule foreach_upt_inv[where I="table_cells h jobs C i" and ?a0.0=1, OF _ _ C start])
       (auto intro: fill_cell_ok[OF pos i])
  then obtain K' where K': "foreach [1..<C] (\<lambda>j. fill_cell h jobs i j) K = (Return (), K')"
    "table_cells h jobs C i C K'" by blast
  have "table_rows h jobs C (Suc i) K'"
    using K'(2) by (auto simp: table_cells_def table_rows_def less_Suc_eq)
  with K'(1) show ?thesis by blast
qed

lemma knapsack_table_ok:
  assumes pos: "\<forall>j\<in>set jobs. 0 < threads (h j)" and c: "0 \<le> c"
  shows "\<exists>K. knapsack_table c h jobs = (Return (), K)
           \<and> table_rows h jobs (nat (c + 1)) (Suc (length jobs)) K"
proof -
  let ?C = "nat (c + 1)"
  let ?K0 = "replicate (length jobs + 1) (replicate ?C (0::int))"
  have C: "1 \<le> ?C" using c by simp
  have start: "table_rows h jobs ?C 1 ?K0"
    using C by (auto simp: table_rows_def nth_Cons split: nat.splits)
  have step: "\<exists>K'. foreach [1..<?C] (\<lambda>j. fill_cell h jobs k j) K = (Return (), K')
                  \<and> table_rows h jobs ?C (Suc k) K'"
    if "1 \<le> k" "k < length jobs + 1" "table_rows h jobs ?C k K" for k K
    by (rule fill_row_ok[OF pos that(1) _ C that(3)]) (use that(2) in simp)
  have "\<exists>K. foreach [1..<length jobs + 1] (\<lambda>i. foreach [1..<?C] (\<lambda>j. fill_cell h jobs i j)) ?K0 = (Return (), K)
           \<and> table_rows h jobs ?C (length jobs + 1) K"
    by (rule foreach_upt_inv[where I="table_rows h jobs ?C" and ?a0.0=1, OF step _ _ start]) simp_all
  then show ?thesis by (simp add: knapsack_table_def Let_def)
qed

lemma reconstruct_ok:
  assumes pos: "\<forall>j\<in>set jobs. 0 < threads (h j)" and dist: "distinct jobs"
    and tab: "table_rows h jobs C (Suc (length jobs)) K"
  shows "i \<le> length jobs \<Longrightarrow> 0 \<le> j \<Longrightarrow> j < int C \<Longrightarrow> set sol \<inter> set (take i jobs) = {}
     \<Longrightarrow> \<exists>P. reconstruct h jobs K i j sol = Return (sol @ P) \<and> set P \<subseteq> set (take i jobs)
            \<and> distinct P \<and> (\<Sum>k\<leftarrow>P. threads (h k)) = kval h jobs i j"
proof (induction i arbitrary: j sol)
  case 0
  then show ?case by simp
next
  case (Suc i)
  let ?t = "threads (h (jobs ! i))"
  have il: "i < length jobs" using Suc.prems(1) by simp
  have tpos: "0 < ?t" using pos il by simp
  have jn: "nat j < C" using Suc.prems by simp
  have rows: "\<And>r q. r \<le> length jobs \<Longrightarrow> q < C \<Longrightarrow> K ! r ! q = kval h jobs r (int q)"
    "\<And>r. r \<le> length jobs \<Longrightarrow> length (K ! r) = C"
    using tab by (auto simp: table_rows_def)
  have a: "py_get (K ! Suc i) j = Inr (kval h jobs (Suc i) j)"
    using rows(1)[of "Suc i" "nat j"] rows(2)[of "Suc i"] Suc.prems jn by (simp add: py_get_def Let_def)
  have b: "py_get (K ! i) j = Inr (kval h jobs i j)"
    using rows(1)[of i "nat j"] rows(2)[of i] Suc.prems jn by (simp add: py_get_def Let_def)
  have tk: "take (Suc i) jobs = take i jobs @ [jobs ! i]" using il by (simp add: take_Suc_conv_app_nth)
  have notin: "jobs ! i \<notin> set (take i jobs)"
    using dist il by (metis distinct_take tk distinct_append disjoint_insert(1) list.simps(15) distinct.simps(2) not_distinct_conv_prefix append_Nil2 distinct1_rotate rotate1.simps(2))
  have sol1: "set sol \<inter> set (take i jobs) = {}" "jobs ! i \<notin> set sol"
    using Suc.prems(4) tk by auto
  show ?case
  proof (cases "kval h jobs (Suc i) j \<noteq> kval h jobs i j")
    case True
    then have le: "?t \<le> j" by (auto simp: Let_def split: if_splits)
    then have v: "kval h jobs (Suc i) j = ?t + kval h jobs i (j - ?t)"
      using True by (auto simp: Let_def max_def split: if_splits)
    have "set (sol @ [jobs ! i]) \<inter> set (take i jobs) = {}" using sol1 notin by auto
    from Suc.IH[OF _ _ _ this, of "j - ?t"] il le tpos Suc.prems(3)
    obtain P where P: "reconstruct h jobs K i (j - ?t) (sol @ [jobs ! i]) = Return ((sol @ [jobs ! i]) @ P)"
      "set P \<subseteq> set (take i jobs)" "distinct P" "(\<Sum>k\<leftarrow>P. threads (h k)) = kval h jobs i (j - ?t)"
      by auto
    have "reconstruct h jobs K (Suc i) j sol = Return (sol @ (jobs ! i # P))"
      using a b True P(1) sol1(2) by (simp add: set_add_def)
    moreover have "set (jobs ! i # P) \<subseteq> set (take (Suc i) jobs)" using P(2) tk by auto
    moreover have "distinct (jobs ! i # P)" using P(2,3) notin by auto
    moreover have "(\<Sum>k\<leftarrow>(jobs ! i # P). threads (h k)) = kval h jobs (Suc i) j" using P(4) v by simp
    ultimately show ?thesis by blast
  next
    case False
    from Suc.IH[OF _ Suc.prems(2,3) sol1(1)] il
    obtain P where P: "reconstruct h jobs K i j sol = Return (sol @ P)"
      "set P \<subseteq> set (take i jobs)" "distinct P" "(\<Sum>k\<leftarrow>P. threads (h k)) = kval h jobs i j"
      by auto
    have "reconstruct h jobs K (Suc i) j sol = Return (sol @ P)"
      using a b False P(1) by simp
    moreover have "set P \<subseteq> set (take (Suc i) jobs)" using P(2) tk by auto
    ultimately show ?thesis using P(3,4) False by auto
  qed
qed

lemma kval_upper:
  assumes pos: "\<forall>j\<in>set jobs. 0 < threads (h j)" and dist: "distinct jobs"
  shows "i \<le> length jobs \<Longrightarrow> T \<subseteq> set (take i jobs) \<Longrightarrow> (\<Sum>k\<in>T. threads (h k)) \<le> c
     \<Longrightarrow> (\<Sum>k\<in>T. threads (h k)) \<le> kval h jobs i c"
proof (induction i arbitrary: T c)
  case 0
  then show ?case by simp
next
  case (Suc i)
  let ?x = "jobs ! i"
  let ?t = "threads (h ?x)"
  have il: "i < length jobs" using Suc.prems(1) by simp
  have tk: "take (Suc i) jobs = take i jobs @ [?x]" using il by (simp add: take_Suc_conv_app_nth)
  have fin: "finite T" using Suc.prems(2) by (rule finite_subset) simp
  have nonneg: "\<And>A. A \<subseteq> set jobs \<Longrightarrow> 0 \<le> (\<Sum>k\<in>A. threads (h k))"
    using pos by (intro sum_nonneg) (auto simp: less_imp_le subset_iff)
  show ?case
  proof (cases "?x \<in> T")
    case True
    let ?T' = "T - {?x}"
    have s: "(\<Sum>k\<in>T. threads (h k)) = ?t + (\<Sum>k\<in>?T'. threads (h k))"
      using fin True by (simp add: sum.remove)
    have sub: "?T' \<subseteq> set (take i jobs)" using Suc.prems(2) tk by auto
    have "?T' \<subseteq> set jobs" using sub by (meson set_take_subset subset_trans)
    from nonneg[OF this] s Suc.prems(3) have le: "?t \<le> c" by simp
    have "(\<Sum>k\<in>?T'. threads (h k)) \<le> kval h jobs i (c - ?t)"
      by (rule Suc.IH[OF _ sub]) (use il s Suc.prems(3) in auto)
    then show ?thesis using s le by (simp add: Let_def)
  next
    case False
    then have sub: "T \<subseteq> set (take i jobs)" using Suc.prems(2) tk by auto
    have 1: "(\<Sum>k\<in>T. threads (h k)) \<le> kval h jobs i c"
      by (rule Suc.IH[OF _ sub Suc.prems(3)]) (use il in simp)
    then show ?thesis by (auto simp: Let_def)
  qed
qed

text \<open>
  C2. For a list of distinct ready jobs with positive \<open>threads\<close> and a capacity
  \<open>cores \<ge> 0\<close>, \<open>_knapsack\<close> returns a set \<open>S\<close> of jobs of the list whose threads sum to at
  most \<open>cores\<close>, and no subset of the list within the capacity has a larger sum.
\<close>

theorem knapsack_optimal:
  assumes "distinct jobs" "\<forall>j\<in>set jobs. 0 < threads (h j)" "0 \<le> c"
  shows "\<exists>S. knapsack c h jobs = Return S \<and> distinct S \<and> set S \<subseteq> set jobs
           \<and> (\<Sum>k\<in>set S. threads (h k)) \<le> c
           \<and> (\<forall>T. T \<subseteq> set jobs \<and> (\<Sum>k\<in>T. threads (h k)) \<le> c
                  \<longrightarrow> (\<Sum>k\<in>T. threads (h k)) \<le> (\<Sum>k\<in>set S. threads (h k)))"
proof -
  from knapsack_table_ok[OF assms(2,3)] obtain K where K: "knapsack_table c h jobs = (Return (), K)"
    "table_rows h jobs (nat (c + 1)) (Suc (length jobs)) K" by blast
  from reconstruct_ok[OF assms(2,1) K(2), of "length jobs" c "[]"] assms(3)
  obtain P where P: "reconstruct h jobs K (length jobs) c [] = Return P" "set P \<subseteq> set jobs"
    "distinct P" "(\<Sum>k\<leftarrow>P. threads (h k)) = kval h jobs (length jobs) c"
    by auto
  have r: "knapsack c h jobs = Return P" using K(1) P(1) by (simp add: knapsack_def)
  have s: "(\<Sum>k\<in>set P. threads (h k)) = kval h jobs (length jobs) c"
    using P(3,4) by (simp add: sum_list_distinct_conv_sum_set)
  have le: "(\<Sum>k\<in>set P. threads (h k)) \<le> c" using s kval_le[OF assms(3)] by simp
  have opt: "\<forall>T. T \<subseteq> set jobs \<and> (\<Sum>k\<in>T. threads (h k)) \<le> c
                  \<longrightarrow> (\<Sum>k\<in>T. threads (h k)) \<le> (\<Sum>k\<in>set P. threads (h k))"
    using kval_upper[OF assms(2,1), of "length jobs" _ c] s by simp
  show ?thesis using r P(2,3) le opt by blast
qed

text \<open>Three ready jobs with threads 3, 2, 2 on four cores: the two jobs with two threads are selected.\<close>

theorem knapsack_optimal_witness:
  "distinct [0, 1, 2::nat]
   \<and> 0 < threads (heap three_ready_state 0) \<and> 0 < threads (heap three_ready_state 1)
   \<and> 0 < threads (heap three_ready_state 2) \<and> (0::int) \<le> 4
   \<and> knapsack 4 (heap three_ready_state) [0, 1, 2] = Return [2, 1]
   \<and> (\<Sum>k\<in>set [2, 1]. threads (heap three_ready_state k)) = 4
   \<and> (\<Sum>k\<in>{0}. threads (heap three_ready_state k)) \<le> (\<Sum>k\<in>set [2, 1]. threads (heap three_ready_state k))"
proof -
  have h: "distinct [0, 1, 2::nat]" "\<forall>j\<in>set [0, 1, 2]. 0 < threads (heap three_ready_state j)" "(0::int) \<le> 4"
    by (simp_all add: three_ready_state_def empty_state_def default_job_def)
  have e: "knapsack 4 (heap three_ready_state) [0, 1, 2] = Return [2, 1]"
    by code_simp
  have s: "(\<Sum>k\<in>set [2, 1]. threads (heap three_ready_state k)) = 4"
    "(\<Sum>k\<in>{0}. threads (heap three_ready_state k)) = 3"
    by (simp_all add: three_ready_state_def empty_state_def default_job_def)
  from knapsack_optimal [OF h] obtain S where S: "knapsack 4 (heap three_ready_state) [0, 1, 2] = Return S"
    "\<forall>T. T \<subseteq> set [0, 1, 2] \<and> (\<Sum>k\<in>T. threads (heap three_ready_state k)) \<le> 4
          \<longrightarrow> (\<Sum>k\<in>T. threads (heap three_ready_state k)) \<le> (\<Sum>k\<in>set S. threads (heap three_ready_state k))"
    by blast
  have "S = [2, 1]" using S(1) e by simp
  then have "(\<Sum>k\<in>{0}. threads (heap three_ready_state k)) \<le> (\<Sum>k\<in>set [2, 1]. threads (heap three_ready_state k))"
    using S(2) [rule_format, of "{0}"] s by simp
  then show ?thesis using h e s by simp
qed

subsection \<open>Dispatch of ready jobs\<close>

lemma shrinks_refl [simp]: "shrinks s s"
  by (simp add: shrinks_def)











































end
